theory Spec2Isabelle
  imports Complex_Main "HOL-Library.Log_Nat"
begin

section \<open>JavaScript strings\<close>

text \<open>
  A JavaScript string is modelled as a \<^typ>\<open>string\<close> whose characters are the code
  units \<open>0x00..0xFF\<close> (ASCII and Latin-1). The built-ins below follow ECMAScript on that
  range; text with code units above \<open>0xFF\<close> is outside the model.
\<close>

definition code_unit :: "char \<Rightarrow> nat" where
  "code_unit c = of_char c"

text \<open>\<open>\s\<close> and \<open>String.prototype.trim\<close>: TAB, LF, VT, FF, CR, SPACE and NBSP.\<close>

definition is_space :: "char \<Rightarrow> bool" where
  "is_space c =
     (code_unit c = 9 \<or> code_unit c = 10 \<or> code_unit c = 11 \<or> code_unit c = 12 \<or>
      code_unit c = 13 \<or> code_unit c = 32 \<or> code_unit c = 160)"

definition is_upper :: "char \<Rightarrow> bool" where
  "is_upper c = (65 \<le> code_unit c \<and> code_unit c \<le> 90)"

definition is_lower :: "char \<Rightarrow> bool" where
  "is_lower c = (97 \<le> code_unit c \<and> code_unit c \<le> 122)"

definition is_digit :: "char \<Rightarrow> bool" where
  "is_digit c = (48 \<le> code_unit c \<and> code_unit c \<le> 57)"

text \<open>\<open>String.prototype.toLowerCase\<close>: \<open>A-Z\<close> and the Latin-1 capitals
  \<open>0xC0..0xDE\<close> (without the multiplication sign \<open>0xD7\<close>) move up by 32.\<close>

definition to_lower_char :: "char \<Rightarrow> char" where
  "to_lower_char c =
     (if is_upper c \<or> (192 \<le> code_unit c \<and> code_unit c \<le> 222 \<and> code_unit c \<noteq> 215)
      then char_of (code_unit c + 32) else c)"

definition toLowerCase :: "string \<Rightarrow> string" where
  "toLowerCase s = map to_lower_char s"

primrec starts_with :: "string \<Rightarrow> string \<Rightarrow> bool" where
  "starts_with s [] = True"
| "starts_with s (c # cs) = (case s of [] \<Rightarrow> False | d # ds \<Rightarrow> d = c \<and> starts_with ds cs)"

text \<open>\<open>String.prototype.includes\<close>: \<open>sub\<close> occurs in \<open>s\<close> as a contiguous substring.\<close>

primrec str_includes :: "string \<Rightarrow> string \<Rightarrow> bool" where
  "str_includes [] sub = (sub = [])"
| "str_includes (c # cs) sub = (starts_with (c # cs) sub \<or> str_includes cs sub)"

text \<open>\<open>Array.prototype.join(' ')\<close> on an array of strings.\<close>

fun join_space :: "string list \<Rightarrow> string" where
  "join_space [] = []"
| "join_space [x] = x"
| "join_space (x # y # ys) = x @ CHR '' '' # join_space (y # ys)"

text \<open>
  \<open>String.prototype.split\<close> with a separator regex of the form \<open>[...]+\<close>: the string is
  cut at every maximal run of separator characters. A run at the start or at the end leaves
  an empty piece there, and the empty string splits into one empty piece.
\<close>

function split_acc :: "(char \<Rightarrow> bool) \<Rightarrow> string \<Rightarrow> string \<Rightarrow> string list" where
  "split_acc sep acc [] = [rev acc]"
| "split_acc sep acc (c # cs) =
     (if sep c then rev acc # split_acc sep [] (dropWhile sep cs)
      else split_acc sep (c # acc) cs)"
  by pat_completeness auto
termination
  by (relation "measure (\<lambda>(sep, acc, s). length s)")
     (auto simp: le_imp_less_Suc length_dropWhile_le)

definition split_on :: "(char \<Rightarrow> bool) \<Rightarrow> string \<Rightarrow> string list" where
  "split_on sep s = split_acc sep [] s"

text \<open>\<open>s.trim().length > 0\<close>: some character of \<open>s\<close> is not white space.\<close>

definition trim_nonempty :: "string \<Rightarrow> bool" where
  "trim_nonempty s = (filter (\<lambda>c. \<not> is_space c) s \<noteq> [])"

definition is_sentence_end :: "char \<Rightarrow> bool" where
  "is_sentence_end c = (c = CHR ''.'' \<or> c = CHR ''!'' \<or> c = CHR ''?'')"

section \<open>JavaScript numbers\<close>

text \<open>
  A JavaScript number is an IEEE 754 binary64 value, modelled as the rational that it
  denotes. Every arithmetic operation returns the exact result rounded to 53 significant
  bits, ties to the even significand. The exponent range is not bounded in the model: the
  numbers of this program are counts below \<open>2^53\<close> (lengths of arrays and strings), which
  are exact, and quotients, products and differences of them with small constants, which
  neither overflow nor underflow.
\<close>

text \<open>Round to the nearest integer, a tie to the even one.\<close>

definition rne :: "rat \<Rightarrow> int" where
  "rne q =
     (let f = \<lfloor>q\<rfloor>; d = q - of_int f
      in if d < 1 / 2 then f else if 1 / 2 < d then f + 1 else if even f then f else f + 1)"

text \<open>The binary exponent of a positive rational: \<open>2^e \<le> x < 2^(e+1)\<close>.\<close>

definition binexp :: "rat \<Rightarrow> int" where
  "binexp x =
     (case quotient_of x of
        (a, b) \<Rightarrow> let e0 = bitlen a - bitlen b in if 2 powi e0 \<le> x then e0 else e0 - 1)"

definition round64 :: "rat \<Rightarrow> rat" where
  "round64 x =
     (if x = 0 then 0
      else let u = 2 powi (binexp \<bar>x\<bar> - 52) in sgn x * (of_int (rne (\<bar>x\<bar> / u)) * u))"

text \<open>The operators \<open>/\<close>, \<open>*\<close> and \<open>-\<close> on numbers. Every division of this program
  is guarded by a test that its divisor is positive, or divides by a literal.\<close>

definition fdiv :: "rat \<Rightarrow> rat \<Rightarrow> rat" where
  "fdiv x y = round64 (x / y)"

definition fmul :: "rat \<Rightarrow> rat \<Rightarrow> rat" where
  "fmul x y = round64 (x * y)"

definition fsub :: "rat \<Rightarrow> rat \<Rightarrow> rat" where
  "fsub x y = round64 (x - y)"

text \<open>\<open>Math.round\<close> returns the nearest integer, a tie towards plus infinity, and
  \<open>Math.ceil\<close> the least integer not below its argument; both are exact.\<close>

definition Math_round :: "rat \<Rightarrow> int" where
  "Math_round x = \<lfloor>x + 1 / 2\<rfloor>"

definition Math_ceil :: "rat \<Rightarrow> int" where
  "Math_ceil x = \<lceil>x\<rceil>"

section \<open>Conversation turns and the metrics record\<close>

text \<open>
  A turn of \<open>conversationHistory\<close>. \<open>message = None\<close> stands for a turn whose
  \<open>message\<close> field is absent, \<open>null\<close> or otherwise not a string: \<open>join\<close> prints
  \<open>undefined\<close> and \<open>null\<close> as the empty string, and a method call on it throws. A
  \<open>speaker\<close> field that is absent or not a string is never \<open>=== 'user'\<close>: it is any
  string other than \<open>user\<close>.
\<close>

record turn =
  speaker :: string
  message :: "string option"

text \<open>
  An element of the \<open>conversationHistory\<close> array: \<open>null\<close>, on which reading
  \<open>msg.speaker\<close> throws, or a value that has the fields of a turn. An element that is a
  number, a string, a boolean or an array has neither field; it behaves as an object whose
  speaker is not \<open>user\<close>.
\<close>

datatype element = Null | Obj turn

datatype error = TypeError

text \<open>The object returned by \<open>analyzeSession\<close>. The last four fields are absent from the
  default object, hence optional.\<close>

record metrics =
  talkTimeRatio :: int
  fillerWordCount :: nat
  confidenceScore :: int
  wordCount :: nat
  averageSentenceLength :: rat
  conversationLength :: nat
  discovery_score :: int
  product_knowledge_score :: int
  objection_handling_score :: int
  business_value_score :: int
  overall_effectiveness_score :: int
  google_ads_concepts_used :: "string list option"
  discovery_questions_count :: "nat option"
  objection_handling_count :: "nat option"
  business_value_mentions :: "nat option"

definition default_metrics :: metrics where
  "default_metrics =
     \<lparr> talkTimeRatio = 50, fillerWordCount = 0, confidenceScore = 50, wordCount = 0,
       averageSentenceLength = 0, conversationLength = 0,
       discovery_score = 2, product_knowledge_score = 2, objection_handling_score = 2,
       business_value_score = 2, overall_effectiveness_score = 2,
       google_ads_concepts_used = None, discovery_questions_count = None,
       objection_handling_count = None, business_value_mentions = None \<rparr>"

section \<open>analyzeSession (server.js)\<close>

definition fillerWords :: "string list" where
  "fillerWords = [''um'', ''uh'', ''like'', ''you know'', ''basically'', ''literally'', ''actually'']"

definition is_filler :: "string \<Rightarrow> bool" where
  "is_filler word = list_ex (\<lambda>filler. str_includes word filler) fillerWords"

definition googleAdsConcepts :: "string list" where
  "googleAdsConcepts =
     [''quality score'', ''cpc'', ''ctr'', ''roas'', ''performance max'', ''smart campaigns'',
      ''search campaigns'', ''display network'', ''youtube ads'', ''shopping campaigns'',
      ''keyword research'', ''negative keywords'', ''bidding strategy'', ''ad extensions'',
      ''conversion tracking'', ''remarketing'', ''audience targeting'', ''budget optimization'',
      ''google ads'', ''advertising'', ''marketing'', ''campaigns'', ''keywords'', ''budget'']"

definition is_discovery_question :: "string \<Rightarrow> bool" where
  "is_discovery_question m =
     (str_includes m ''?'' \<and>
       (str_includes (toLowerCase m) ''goal'' \<or>
        str_includes (toLowerCase m) ''currently'' \<or>
        str_includes (toLowerCase m) ''budget'' \<or>
        str_includes (toLowerCase m) ''target'' \<or>
        str_includes (toLowerCase m) ''competition'' \<or>
        str_includes (toLowerCase m) ''challenge'' \<or>
        str_includes (toLowerCase m) ''how'' \<or>
        str_includes (toLowerCase m) ''what'' \<or>
        str_includes (toLowerCase m) ''why'' \<or>
        str_includes (toLowerCase m) ''when'' \<or>
        str_includes (toLowerCase m) ''where''))"

definition is_objection_handling :: "string \<Rightarrow> bool" where
  "is_objection_handling m =
     (str_includes (toLowerCase m) ''understand'' \<or>
      str_includes (toLowerCase m) ''let me explain'' \<or>
      str_includes (toLowerCase m) ''for example'' \<or>
      str_includes (toLowerCase m) ''actually'' \<or>
      str_includes (toLowerCase m) ''what i mean'' \<or>
      str_includes (toLowerCase m) ''let me show you'' \<or>
      str_includes (toLowerCase m) ''i see your point'' \<or>
      str_includes (toLowerCase m) ''that makes sense'')"

definition is_business_value :: "string \<Rightarrow> bool" where
  "is_business_value m =
     (str_includes (toLowerCase m) ''roi'' \<or>
      str_includes (toLowerCase m) ''return'' \<or>
      str_includes (toLowerCase m) ''revenue'' \<or>
      str_includes (toLowerCase m) ''growth'' \<or>
      str_includes (toLowerCase m) ''customers'' \<or>
      str_includes (toLowerCase m) ''sales'' \<or>
      str_includes (toLowerCase m) ''profit'' \<or>
      str_includes (toLowerCase m) ''increase'' \<or>
      str_includes (toLowerCase m) ''improve'' \<or>
      str_includes (toLowerCase m) ''results'')"

text \<open>The four count-to-score expressions of the "Calculate scores (1-5 scale)" block.\<close>

definition discovery_score_of :: "nat \<Rightarrow> int" where
  "discovery_score_of discoveryQuestions =
     min 5 (max 1 (Math_ceil (fdiv (of_nat discoveryQuestions) 2) + 1))"

definition product_knowledge_score_of :: "nat \<Rightarrow> int" where
  "product_knowledge_score_of n = min 5 (max 1 (if n > 0 then int n + 1 else 1))"

definition objection_handling_score_of :: "nat \<Rightarrow> int" where
  "objection_handling_score_of objectionHandling =
     min 5 (max 1 (if objectionHandling > 0 then int objectionHandling + 2 else 1))"

definition business_value_score_of :: "nat \<Rightarrow> int" where
  "business_value_score_of businessValueMentions =
     min 5 (max 1 (if businessValueMentions > 0 then int businessValueMentions + 2 else 1))"

definition overall_effectiveness_score_of :: "int \<Rightarrow> int \<Rightarrow> int \<Rightarrow> int \<Rightarrow> int" where
  "overall_effectiveness_score_of d p ob b =
     min 5 (max 1 (Math_ceil (fdiv (of_int (d + p + ob + b)) 4)))"

text \<open>\<open>fillerRatio\<close> and the unrounded \<open>confidenceScore\<close>; the record stores its
  \<open>Math.round\<close>.\<close>

definition fillerRatio_of :: "nat \<Rightarrow> nat \<Rightarrow> rat" where
  "fillerRatio_of fillers n = (if n > 0 then fdiv (of_nat fillers) (of_nat n) else 0)"

definition confidence_of :: "nat \<Rightarrow> nat \<Rightarrow> int" where
  "confidence_of fillers n =
     Math_round (max 20 (min 100 (fsub 100 (fmul (fillerRatio_of fillers n) 200))))"

definition estimatedTalkTime_of :: "nat \<Rightarrow> nat \<Rightarrow> int" where
  "estimatedTalkTime_of userCount totalMessages =
     (if totalMessages > 0
      then Math_round (fmul (fdiv (of_nat userCount) (of_nat totalMessages)) 100)
      else 50)"

definition is_user :: "turn \<Rightarrow> bool" where
  "is_user msg = (speaker msg = ''user'')"

text \<open>\<open>conversationHistory.filter(msg => msg.speaker === 'user')\<close>: the callback reads
  \<open>msg.speaker\<close> of every element and throws on \<open>null\<close>.\<close>

fun filter_user :: "element list \<Rightarrow> error + turn list" where
  "filter_user [] = Inr []"
| "filter_user (Null # es) = Inl TypeError"
| "filter_user (Obj msg # es) =
     (case filter_user es of
        Inl e \<Rightarrow> Inl e
      | Inr msgs \<Rightarrow> Inr (if is_user msg then msg # msgs else msgs))"

text \<open>\<open>msg.message\<close> as \<open>join\<close> prints it.\<close>

definition message_text :: "turn \<Rightarrow> string" where
  "message_text msg = (case message msg of None \<Rightarrow> [] | Some s \<Rightarrow> s)"

text \<open>The receivers of \<open>msg.message.includes(...)\<close> and \<open>msg.message.toLowerCase()\<close> in
  the three \<open>userMessages.filter\<close> calls: a message that is not a string throws.\<close>

fun message_strings :: "turn list \<Rightarrow> error + string list" where
  "message_strings [] = Inr []"
| "message_strings (msg # msgs) =
     (case message msg of
        None \<Rightarrow> Inl TypeError
      | Some s \<Rightarrow> (case message_strings msgs of Inl e \<Rightarrow> Inl e | Inr ss \<Rightarrow> Inr (s # ss)))"

definition analyzeSession :: "string option \<Rightarrow> element list \<Rightarrow> error + metrics" where
  "analyzeSession transcript conversationHistory =
     (if (transcript = None \<or> transcript = Some []) \<and> length conversationHistory = 0
      then Inr default_metrics
      else
      case filter_user conversationHistory of
        Inl e \<Rightarrow> Inl e
      | Inr userMessages \<Rightarrow>
        let textToAnalyze =
              (if length conversationHistory > 0
               then join_space (map message_text userMessages)
               else (case transcript of None \<Rightarrow> [] | Some t \<Rightarrow> t));
            words = filter (\<lambda>word. length word > 0) (split_on is_space (toLowerCase textToAnalyze));
            sentences = filter trim_nonempty (split_on is_sentence_end textToAnalyze);
            fillers = length (filter is_filler words);
            avgSentenceLength =
              (if length sentences > 0
               then fdiv (of_nat (length words)) (of_nat (length sentences))
               else 0);
            totalMessages = length conversationHistory;
            estimatedTalkTime = estimatedTalkTime_of (length userMessages) totalMessages;
            allUserText = toLowerCase (join_space (map message_text userMessages));
            conceptsUsed =
              filter (\<lambda>concept. str_includes allUserText (toLowerCase concept)) googleAdsConcepts
        in case message_strings userMessages of
             Inl e \<Rightarrow> Inl e
           | Inr msgs \<Rightarrow>
               let discoveryQuestions = length (filter is_discovery_question msgs);
                   objectionHandling = length (filter is_objection_handling msgs);
                   businessValueMentions = length (filter is_business_value msgs);
                   d = discovery_score_of discoveryQuestions;
                   p = product_knowledge_score_of (length conceptsUsed);
                   ob = objection_handling_score_of objectionHandling;
                   b = business_value_score_of businessValueMentions
               in Inr \<lparr> talkTimeRatio = estimatedTalkTime,
                        fillerWordCount = fillers,
                        confidenceScore = confidence_of fillers (length words),
                        wordCount = length words,
                        averageSentenceLength =
                          fdiv (of_int (Math_round (fmul avgSentenceLength 10))) 10,
                        conversationLength = length conversationHistory,
                        discovery_score = d,
                        product_knowledge_score = p,
                        objection_handling_score = ob,
                        business_value_score = b,
                        overall_effectiveness_score = overall_effectiveness_score_of d p ob b,
                        google_ads_concepts_used = Some conceptsUsed,
                        discovery_questions_count = Some discoveryQuestions,
                        objection_handling_count = Some objectionHandling,
                        business_value_mentions = Some businessValueMentions \<rparr>)"

text \<open>The guard of the default branch: \<open>!transcript && conversationHistory.length === 0\<close>.\<close>

definition is_default_input :: "string option \<Rightarrow> element list \<Rightarrow> bool" where
  "is_default_input transcript conversationHistory =
     ((transcript = None \<or> transcript = Some []) \<and> length conversationHistory = 0)"

text \<open>The turns of a history, without its \<open>null\<close> elements.\<close>

fun objects :: "element list \<Rightarrow> turn list" where
  "objects [] = []"
| "objects (Null # es) = objects es"
| "objects (Obj msg # es) = msg # objects es"

text \<open>The talk-time ratio as the specification words it:
  \<open>round(100 * count(trainee turns) / count(all turns))\<close>, in exact arithmetic.\<close>

definition spec_talkTimeRatio :: "nat \<Rightarrow> nat \<Rightarrow> int" where
  "spec_talkTimeRatio userCount totalMessages =
     Math_round (100 * of_nat userCount / of_nat totalMessages)"

text \<open>The keywords tested by \<open>discoveryQuestions\<close> in \<open>analyzeSession\<close>, as a list.\<close>

definition discovery_keywords :: "string list" where
  "discovery_keywords =
     [''goal'', ''currently'', ''budget'', ''target'', ''competition'', ''challenge'',
      ''how'', ''what'', ''why'', ''when'', ''where'']"

text \<open>The discovery-question test as the specification words it: a question mark and one
  of thirteen keywords.\<close>

definition spec_discovery_keywords :: "string list" where
  "spec_discovery_keywords =
     [''goal'', ''currently'', ''budget'', ''target'', ''competition'', ''challenge'',
      ''measure'', ''success'', ''how'', ''what'', ''why'', ''when'', ''where'']"

definition spec_is_discovery_question :: "string \<Rightarrow> bool" where
  "spec_is_discovery_question m =
     (str_includes m ''?'' \<and>
      list_ex (\<lambda>k. str_includes (toLowerCase m) k) spec_discovery_keywords)"

text \<open>The confidence formula as the specification words it:
  \<open>clamp(round(100 - 200 * fillerWordCount / wordCount), 20, 100)\<close>, the ratio being 0 when
  \<open>wordCount = 0\<close>, in exact arithmetic.\<close>

definition spec_confidence :: "nat \<Rightarrow> nat \<Rightarrow> int" where
  "spec_confidence fillers n =
     max 20 (min 100 (Math_round (100 - 200 * (if n = 0 then 0 else of_nat fillers / of_nat n))))"

section \<open>analyzeGoogleAdsPerformance: the discovery-question test (server.js)\<close>

definition is_discovery_question_ads :: "string \<Rightarrow> bool" where
  "is_discovery_question_ads m =
     (str_includes m ''?'' \<and>
       (str_includes (toLowerCase m) ''goal'' \<or>
        str_includes (toLowerCase m) ''currently'' \<or>
        str_includes (toLowerCase m) ''budget'' \<or>
        str_includes (toLowerCase m) ''target'' \<or>
        str_includes (toLowerCase m) ''competition'' \<or>
        str_includes (toLowerCase m) ''challenge'' \<or>
        str_includes (toLowerCase m) ''measure'' \<or>
        str_includes (toLowerCase m) ''success''))"

text \<open>The keywords of that test, as a list.\<close>

definition discovery_keywords_ads :: "string list" where
  "discovery_keywords_ads =
     [''goal'', ''currently'', ''budget'', ''target'', ''competition'', ''challenge'',
      ''measure'', ''success'']"

section \<open>analyzeSession, the transcript-only variant\<close>

text \<open>
  The one-argument \<open>analyzeSession(transcript)\<close> of the older server files. Its \<open>words\<close>
  are not filtered, so \<open>split\<close> may leave empty tokens in them.
\<close>

record transcript_metrics =
  t_talkTimeRatio :: int
  t_fillerWordCount :: nat
  t_confidenceScore :: int
  t_wordCount :: nat
  t_averageSentenceLength :: rat

text \<open>\<open>Math.min(80, Math.max(20, words.length / 10))\<close>\<close>

definition estimatedTalkTime_words :: "nat \<Rightarrow> rat" where
  "estimatedTalkTime_words n = min 80 (max 20 (fdiv (of_nat n) 10))"

definition analyzeSession_transcript :: "string option \<Rightarrow> transcript_metrics" where
  "analyzeSession_transcript transcript =
     (case transcript of
        None \<Rightarrow> \<lparr> t_talkTimeRatio = 0, t_fillerWordCount = 0, t_confidenceScore = 50,
                  t_wordCount = 0, t_averageSentenceLength = 0 \<rparr>
      | Some tr \<Rightarrow>
          if tr = [] then \<lparr> t_talkTimeRatio = 0, t_fillerWordCount = 0, t_confidenceScore = 50,
                            t_wordCount = 0, t_averageSentenceLength = 0 \<rparr>
          else
            let words = split_on is_space (toLowerCase tr);
                sentences = filter trim_nonempty (split_on is_sentence_end tr);
                fillers = length (filter is_filler words);
                fillerRatio = fdiv (of_nat fillers) (of_nat (length words));
                confidence = max 20 (min 100 (fsub 100 (fmul fillerRatio 200)));
                avgSentenceLength =
                  (if length sentences > 0
                   then fdiv (of_nat (length words)) (of_nat (length sentences))
                   else 0);
                estimatedTalkTime = estimatedTalkTime_words (length words)
            in \<lparr> t_talkTimeRatio = Math_round estimatedTalkTime,
                 t_fillerWordCount = fillers,
                 t_confidenceScore = Math_round confidence,
                 t_wordCount = length words,
                 t_averageSentenceLength =
                   fdiv (of_int (Math_round (fmul avgSentenceLength 10))) 10 \<rparr>)"

section \<open>Regular expressions of redactPII\<close>

text \<open>
  The fragment of ECMAScript regular expressions that \<open>redactPII\<close> uses: character classes,
  sequencing, the greedy quantifiers \<open>?\<close>, \<open>+\<close> and \<open>{n,}\<close> on a class, and the word
  boundary \<open>\b\<close>. A matcher state is the character before the current position (if any)
  and the rest of the input.
\<close>

datatype rx =
    Eps
  | Cls "char \<Rightarrow> bool"
  | Bnd
  | Seq rx rx
  | Opt rx
  | Many "char \<Rightarrow> bool" nat

type_synonym mstate = "char option \<times> string"

text \<open>\<open>\w\<close> without the unicode and ignore-case flags.\<close>

definition is_word_char :: "char \<Rightarrow> bool" where
  "is_word_char c = (is_upper c \<or> is_lower c \<or> is_digit c \<or> c = CHR ''_'')"

fun wd :: "char option \<Rightarrow> bool" where
  "wd None = False"
| "wd (Some c) = is_word_char c"

fun nxt :: "string \<Rightarrow> char option" where
  "nxt [] = None"
| "nxt (x # xs) = Some x"

text \<open>
  \<open>many c n\<close> is the class \<open>c\<close> repeated at least \<open>n\<close> times, greedily: the results are
  listed in the order in which a backtracking matcher tries them, the longest first.
\<close>

fun many :: "(char \<Rightarrow> bool) \<Rightarrow> nat \<Rightarrow> char option \<Rightarrow> string \<Rightarrow> mstate list" where
  "many c n p [] = (if n = 0 then [(p, [])] else [])"
| "many c n p (x # xs) =
     (if c x then many c (n - 1) (Some x) xs else []) @ (if n = 0 then [(p, x # xs)] else [])"

text \<open>
  \<open>run re st\<close> lists every way in which \<open>re\<close> matches at \<open>st\<close>, in backtracking order;
  the matcher's answer is the first one.
\<close>

primrec run :: "rx \<Rightarrow> mstate \<Rightarrow> mstate list" where
  "run Eps st = [st]"
| "run (Cls c) st =
     (case snd st of [] \<Rightarrow> [] | x # xs \<Rightarrow> if c x then [(Some x, xs)] else [])"
| "run Bnd st = (if wd (fst st) \<noteq> wd (nxt (snd st)) then [st] else [])"
| "run (Seq a b) st = concat (map (run b) (run a st))"
| "run (Opt a) st = run a st @ [st]"
| "run (Many c n) st = many c n (fst st) (snd st)"

definition exec :: "rx \<Rightarrow> char option \<Rightarrow> string \<Rightarrow> mstate option" where
  "exec re p s = (case run re (p, s) of [] \<Rightarrow> None | r # rs \<Rightarrow> Some r)"

fun seqs :: "rx list \<Rightarrow> rx" where
  "seqs [] = Eps"
| "seqs [r] = r"
| "seqs (r # rs) = Seq r (seqs rs)"

text \<open>
  \<open>String.prototype.replace\<close> with a global regex and a replacement without \<open>$\<close>: the
  leftmost match from the current position is replaced and the scan goes on behind it; an
  empty match is replaced and the scan moves one character on.
\<close>

function js_replace :: "rx \<Rightarrow> string \<Rightarrow> char option \<Rightarrow> string \<Rightarrow> string" where
  "js_replace re ph p s =
     (case exec re p s of
        None \<Rightarrow> (case s of [] \<Rightarrow> [] | x # xs \<Rightarrow> x # js_replace re ph (Some x) xs)
      | Some (q, t) \<Rightarrow>
          if length t < length s then ph @ js_replace re ph q t
          else ph @ (case s of [] \<Rightarrow> [] | x # xs \<Rightarrow> x # js_replace re ph (Some x) xs))"
  by pat_completeness auto
termination
  by (relation "measure (\<lambda>(re, ph, p, s). length s)") auto

definition digit :: rx where
  "digit = Cls is_digit"

definition lit :: "char \<Rightarrow> rx" where
  "lit c = Cls (\<lambda>x. x = c)"

text \<open>\<open>/\b[A-Za-z0-9._%+-]+@[A-Za-z0-9.-]+\.[A-Z|a-z]{2,}\b/g\<close>\<close>

definition is_alnum :: "char \<Rightarrow> bool" where
  "is_alnum c = (is_upper c \<or> is_lower c \<or> is_digit c)"

definition email_rx :: rx where
  "email_rx =
     seqs [Bnd,
           Many (\<lambda>c. is_alnum c \<or> c = CHR ''.'' \<or> c = CHR ''_'' \<or> c = CHR ''%''
                      \<or> c = CHR ''+'' \<or> c = CHR ''-'') 1,
           lit CHR ''@'',
           Many (\<lambda>c. is_alnum c \<or> c = CHR ''.'' \<or> c = CHR ''-'') 1,
           lit CHR ''.'',
           Many (\<lambda>c. is_upper c \<or> c = CHR ''|'' \<or> is_lower c) 2,
           Bnd]"

text \<open>\<open>/\b(?:\+?1[-.\s]?)?\(?([0-9]{3})\)?[-.\s]?([0-9]{3})[-.\s]?([0-9]{4})\b/g\<close>\<close>

definition phone_sep :: rx where
  "phone_sep = Cls (\<lambda>c. c = CHR ''-'' \<or> c = CHR ''.'' \<or> is_space c)"

definition phone_rx :: rx where
  "phone_rx =
     seqs [Bnd,
           Opt (seqs [Opt (lit CHR ''+''), lit CHR ''1'', Opt phone_sep]),
           Opt (lit CHR ''(''),
           digit, digit, digit,
           Opt (lit CHR '')''),
           Opt phone_sep,
           digit, digit, digit,
           Opt phone_sep,
           digit, digit, digit, digit,
           Bnd]"

text \<open>\<open>/\b\d{3}-?\d{2}-?\d{4}\b/g\<close>\<close>

definition ssn_rx :: rx where
  "ssn_rx =
     seqs [Bnd,
           digit, digit, digit,
           Opt (lit CHR ''-''),
           digit, digit,
           Opt (lit CHR ''-''),
           digit, digit, digit, digit,
           Bnd]"

text \<open>\<open>/\b\d{4}[-\s]?\d{4}[-\s]?\d{4}[-\s]?\d{4}\b/g\<close>\<close>

definition card_sep :: rx where
  "card_sep = Cls (\<lambda>c. c = CHR ''-'' \<or> is_space c)"

definition card_rx :: rx where
  "card_rx =
     seqs [Bnd,
           digit, digit, digit, digit,
           Opt card_sep,
           digit, digit, digit, digit,
           Opt card_sep,
           digit, digit, digit, digit,
           Opt card_sep,
           digit, digit, digit, digit,
           Bnd]"

text \<open>\<open>/\b[A-Z][a-z]+ [A-Z][a-z]+\b/g\<close>\<close>

definition name_rx :: rx where
  "name_rx =
     seqs [Bnd,
           Cls is_upper, Many is_lower 1,
           lit CHR '' '',
           Cls is_upper, Many is_lower 1,
           Bnd]"

section \<open>redactPII (server.js)\<close>

text \<open>\<open>None\<close> is a \<open>text\<close> that is \<open>null\<close> or \<open>undefined\<close>; it and the empty string are
  returned as they are.\<close>

definition redact_string :: "string \<Rightarrow> string" where
  "redact_string text =
     (let text = js_replace email_rx ''[EMAIL_REDACTED]'' None text;
          text = js_replace phone_rx ''[PHONE_REDACTED]'' None text;
          text = js_replace ssn_rx ''[SSN_REDACTED]'' None text;
          text = js_replace card_rx ''[CARD_REDACTED]'' None text;
          text = js_replace name_rx ''[NAME_REDACTED]'' None text
      in text)"

definition redactPII :: "string option \<Rightarrow> string option" where
  "redactPII text =
     (case text of
        None \<Rightarrow> None
      | Some s \<Rightarrow> if s = [] then Some s else Some (redact_string s))"

section \<open>The handler of POST /api/sessions/end (server.js)\<close>

text \<open>
  What the handler answers, as far as the analysis decides it: 400 without a session id,
  the analysis (with \<open>conversationLength\<close> set again) when \<open>analyzeSession\<close> returns, and 500
  from the outer \<open>catch\<close> when it throws. The calls to the chat model and to the spreadsheet
  sit in \<open>try\<close> blocks of their own and only add the feedback text, which is left out.
\<close>

datatype response = Status400 | Status500 | Analysis metrics

definition sessions_end ::
  "string option \<Rightarrow> string option \<Rightarrow> element list \<Rightarrow> response" where
  "sessions_end sessionId transcript conversationHistory =
     (if sessionId = None \<or> sessionId = Some [] then Status400
      else
        let redactedTranscript =
              redactPII (case transcript of None \<Rightarrow> Some [] | Some t \<Rightarrow> Some t)
        in case analyzeSession redactedTranscript conversationHistory of
             Inl e \<Rightarrow> Status500
           | Inr analysis \<Rightarrow>
               Analysis (analysis\<lparr>conversationLength := length conversationHistory\<rparr>))"

section \<open>Notions for reasoning about matches and replacement\<close>

text \<open>The last character of \<open>w\<close>, or \<open>p\<close> when \<open>w\<close> is empty: the character before the
  position that is reached from \<open>p\<close> by reading \<open>w\<close>.\<close>

fun lastc :: "char option \<Rightarrow> string \<Rightarrow> char option" where
  "lastc p [] = p"
| "lastc p (x # xs) = lastc (Some x) xs"

text \<open>The characters that a match of \<open>re\<close> can contain.\<close>

primrec alpha :: "rx \<Rightarrow> char \<Rightarrow> bool" where
  "alpha Eps x = False"
| "alpha (Cls c) x = c x"
| "alpha Bnd x = False"
| "alpha (Seq a b) x = (alpha a x \<or> alpha b x)"
| "alpha (Opt a) x = alpha a x"
| "alpha (Many c n) x = c x"

text \<open>A sufficient syntactic condition for: every match of \<open>re\<close> contains a character
  outside \<open>F\<close>.\<close>

primrec needs :: "(char \<Rightarrow> bool) \<Rightarrow> rx \<Rightarrow> bool" where
  "needs F Eps = False"
| "needs F (Cls c) = (\<forall>x. c x \<longrightarrow> \<not> F x)"
| "needs F Bnd = False"
| "needs F (Seq a b) = (needs F a \<or> needs F b)"
| "needs F (Opt a) = False"
| "needs F (Many c n) = (0 < n \<and> (\<forall>x. c x \<longrightarrow> \<not> F x))"

primrec starts_bnd :: "rx \<Rightarrow> bool" where
  "starts_bnd Eps = False"
| "starts_bnd (Cls c) = False"
| "starts_bnd Bnd = True"
| "starts_bnd (Seq a b) = starts_bnd a"
| "starts_bnd (Opt a) = False"
| "starts_bnd (Many c n) = False"

primrec ends_bnd :: "rx \<Rightarrow> bool" where
  "ends_bnd Eps = False"
| "ends_bnd (Cls c) = False"
| "ends_bnd Bnd = True"
| "ends_bnd (Seq a b) = ends_bnd b"
| "ends_bnd (Opt a) = False"
| "ends_bnd (Many c n) = False"

text \<open>The characters of the five placeholders.\<close>

definition is_ph_char :: "char \<Rightarrow> bool" where
  "is_ph_char c = (is_upper c \<or> c = CHR ''_'' \<or> c = CHR ''['' \<or> c = CHR '']'')"

definition placeholder :: "string \<Rightarrow> bool" where
  "placeholder ph =
     (ph \<noteq> [] \<and> hd ph = CHR ''['' \<and> last ph = CHR '']'' \<and> list_all is_ph_char ph)"

text \<open>A regex that starts and ends with \<open>\b\<close>, matches neither bracket, and needs a
  character that no placeholder has.\<close>

definition bounded_rx :: "rx \<Rightarrow> bool" where
  "bounded_rx re =
     (starts_bnd re \<and> ends_bnd re \<and> \<not> alpha re CHR ''['' \<and> \<not> alpha re CHR '']'' \<and>
      needs is_ph_char re)"

text \<open>\<open>clean re p s\<close>: \<open>re\<close> matches at no position of \<open>s\<close>, the character before \<open>s\<close>
  being \<open>p\<close>.\<close>

fun clean :: "rx \<Rightarrow> char option \<Rightarrow> string \<Rightarrow> bool" where
  "clean re p [] = (run re (p, []) = [])"
| "clean re p (x # xs) = (run re (p, x # xs) = [] \<and> clean re (Some x) xs)"

text \<open>\<open>covered a b p s\<close>: at every position of \<open>s\<close> where \<open>a\<close> matches, \<open>b\<close> matches too.\<close>

fun covered :: "rx \<Rightarrow> rx \<Rightarrow> char option \<Rightarrow> string \<Rightarrow> bool" where
  "covered a b p [] = (run a (p, []) = [] \<or> run b (p, []) \<noteq> [])"
| "covered a b p (x # xs) =
     ((run a (p, x # xs) = [] \<or> run b (p, x # xs) \<noteq> []) \<and> covered a b (Some x) xs)"

section \<open>Properties of the rounding of numbers\<close>

lemma rne_cases: "rne q = \<lfloor>q\<rfloor> \<or> rne q = \<lfloor>q\<rfloor> + 1"
  by (simp add: rne_def Let_def)

lemma rne_of_int: "rne (of_int k) = k"
  by (simp add: rne_def Let_def)

lemma rne_error: "\<bar>of_int (rne q) - q\<bar> \<le> 1 / 2"
proof -
  have "of_int \<lfloor>q\<rfloor> \<le> q" "q < of_int \<lfloor>q\<rfloor> + 1" by linarith+
  then show ?thesis by (auto simp: rne_def Let_def)
qed

lemma rne_mono: "p \<le> q \<Longrightarrow> rne p \<le> rne q"
proof -
  assume pq: "p \<le> q"
  then have fl: "\<lfloor>p\<rfloor> \<le> \<lfloor>q\<rfloor>" by (rule floor_mono)
  show ?thesis
  proof (cases "\<lfloor>p\<rfloor> = \<lfloor>q\<rfloor>")
    case True
    with pq show ?thesis by (auto simp: rne_def Let_def)
  next
    case False
    with fl have "\<lfloor>p\<rfloor> + 1 \<le> \<lfloor>q\<rfloor>" by simp
    moreover have "rne p \<le> \<lfloor>p\<rfloor> + 1" using rne_cases [of p] by auto
    moreover have "\<lfloor>q\<rfloor> \<le> rne q" using rne_cases [of q] by auto
    ultimately show ?thesis by simp
  qed
qed

lemma two_powi_bitlen:
  assumes "0 < a"
  shows "(2::rat) powi (bitlen a - 1) \<le> of_int a" and "of_int a < (2::rat) powi bitlen a"
proof -
  from bitlen_bounds [OF assms] have b: "2 ^ nat (bitlen a - 1) \<le> a" "a < 2 ^ nat (bitlen a)"
    by simp_all
  have p: "0 < bitlen a"
    using assms bitlen_eq_zero_iff [of a] bitlen_nonneg [of a] by linarith
  have "(2::rat) powi (bitlen a - 1) = of_int (2 ^ nat (bitlen a - 1))"
    using p by (simp add: power_int_def)
  also have "\<dots> \<le> of_int a" using b(1) by (simp only: of_int_le_iff)
  finally show "(2::rat) powi (bitlen a - 1) \<le> of_int a" .
  have "(of_int a :: rat) < of_int (2 ^ nat (bitlen a))" using b(2) by (simp only: of_int_less_iff)
  also have "\<dots> = 2 powi bitlen a" using p by (simp add: power_int_def)
  finally show "of_int a < (2::rat) powi bitlen a" .
qed

lemma binexp_bounds:
  assumes "0 < x"
  shows "2 powi binexp x \<le> x" and "x < 2 powi (binexp x + 1)"
proof -
  obtain a b where q: "quotient_of x = (a, b)" by (cases "quotient_of x")
  then have b: "0 < b" and x: "x = of_int a / of_int b"
    using quotient_of_denom_pos [OF q] quotient_of_div [OF q] by simp_all
  with assms have a: "0 < a" by (simp add: zero_less_divide_iff)
  let ?e = "bitlen a - bitlen b"
  note ba = two_powi_bitlen [OF a] and bb = two_powi_bitlen [OF b]
  have lo: "(2::rat) powi (?e - 1) < x"
  proof -
    have "(2::rat) powi (?e - 1) * of_int b < 2 powi (?e - 1) * 2 powi bitlen b"
      using bb(2) by (simp add: mult_strict_left_mono)
    also have "\<dots> = 2 powi (bitlen a - 1)" by (simp add: power_int_add [symmetric])
    also have "\<dots> \<le> of_int a" by (rule ba(1))
    finally show ?thesis using b by (simp add: x pos_less_divide_eq)
  qed
  have hi: "x < (2::rat) powi (?e + 1)"
  proof -
    have "of_int a < (2::rat) powi bitlen a" by (rule ba(2))
    also have "\<dots> = 2 powi (?e + 1) * 2 powi (bitlen b - 1)"
      by (simp add: power_int_add [symmetric])
    also have "\<dots> \<le> 2 powi (?e + 1) * of_int b"
      using bb(1) by (simp add: mult_left_mono)
    finally show ?thesis using b by (simp add: x pos_divide_less_eq)
  qed
  show "2 powi binexp x \<le> x"
    using lo by (auto simp: binexp_def q Let_def)
  show "x < 2 powi (binexp x + 1)"
    using hi by (auto simp: binexp_def q Let_def not_le)
qed

lemma binexp_mono:
  assumes "0 < x" "x \<le> y"
  shows "binexp x \<le> binexp y"
proof -
  from assms have y: "0 < y" by simp
  have "(2::rat) powi binexp x \<le> x" by (rule binexp_bounds(1) [OF assms(1)])
  also have "x \<le> y" by fact
  also have "y < 2 powi (binexp y + 1)" by (rule binexp_bounds(2) [OF y])
  finally have "(2::rat) powi binexp x < 2 powi (binexp y + 1)" .
  moreover have "(2::rat) powi (binexp y + 1) \<le> 2 powi binexp x" if "binexp y + 1 \<le> binexp x"
    using that by (simp add: power_int_increasing)
  ultimately have "binexp x < binexp y + 1" by force
  then show ?thesis by simp
qed

lemma round64_pos:
  assumes "0 < x"
  shows "round64 x = of_int (rne (x / 2 powi (binexp x - 52))) * 2 powi (binexp x - 52)"
  using assms by (simp add: round64_def Let_def)

lemma round64_pos_bounds:
  assumes "0 < x"
  shows "2 powi binexp x \<le> round64 x" and "round64 x \<le> 2 powi (binexp x + 1)"
proof -
  let ?u = "(2::rat) powi (binexp x - 52)"
  have u: "0 < ?u" by simp
  have e: "(2::rat) powi binexp x = 2 ^ 52 * ?u" "(2::rat) powi (binexp x + 1) = 2 ^ 53 * ?u"
    by (simp_all add: power_int_diff power_int_add)
  have "(2::rat) ^ 52 \<le> x / ?u"
    using binexp_bounds(1) [OF assms] u by (simp add: e pos_le_divide_eq)
  then have "rne (of_int (2 ^ 52)) \<le> rne (x / ?u)" by (intro rne_mono) simp
  then have "(2::int) ^ 52 \<le> rne (x / ?u)" by (simp only: rne_of_int)
  then have "(of_int (2 ^ 52) :: rat) \<le> of_int (rne (x / ?u))" by (simp only: of_int_le_iff)
  then have "2 ^ 52 * ?u \<le> of_int (rne (x / ?u)) * ?u"
    using u by (simp add: mult_right_mono)
  then show "2 powi binexp x \<le> round64 x"
    by (simp only: round64_pos [OF assms] e)
  have "x / ?u \<le> (2::rat) ^ 53"
    using binexp_bounds(2) [OF assms] u by (simp add: e pos_divide_le_eq)
  then have "rne (x / ?u) \<le> rne (of_int (2 ^ 53))" by (intro rne_mono) simp
  then have "rne (x / ?u) \<le> (2::int) ^ 53" by (simp only: rne_of_int)
  then have "(of_int (rne (x / ?u)) :: rat) \<le> of_int (2 ^ 53)" by (simp only: of_int_le_iff)
  then have "of_int (rne (x / ?u)) * ?u \<le> 2 ^ 53 * ?u"
    using u by (simp add: mult_right_mono)
  then show "round64 x \<le> 2 powi (binexp x + 1)"
    by (simp only: round64_pos [OF assms] e)
qed

lemma round64_mono_pos:
  assumes "0 < x" "x \<le> y"
  shows "round64 x \<le> round64 y"
proof -
  from assms have y: "0 < y" by simp
  from binexp_mono [OF assms] consider "binexp x = binexp y" | "binexp x + 1 \<le> binexp y"
    by linarith
  then show ?thesis
  proof cases
    case 1
    let ?u = "(2::rat) powi (binexp y - 52)"
    have "x / ?u \<le> y / ?u" using assms(2) by (simp add: divide_right_mono)
    then have "rne (x / ?u) \<le> rne (y / ?u)" by (rule rne_mono)
    then have "(of_int (rne (x / ?u)) :: rat) * ?u \<le> of_int (rne (y / ?u)) * ?u"
      by (simp add: mult_right_mono)
    then show ?thesis by (simp add: round64_pos [OF assms(1)] round64_pos [OF y] 1)
  next
    case 2
    have "round64 x \<le> 2 powi (binexp x + 1)" by (rule round64_pos_bounds(2) [OF assms(1)])
    also have "\<dots> \<le> 2 powi binexp y" using 2 by (simp add: power_int_increasing)
    also have "\<dots> \<le> round64 y" by (rule round64_pos_bounds(1) [OF y])
    finally show ?thesis .
  qed
qed

lemma round64_minus: "round64 (- x) = - round64 x"
  by (simp add: round64_def Let_def)

lemma round64_0: "round64 0 = 0"
  by (simp add: round64_def)

lemma round64_pos_pos: "0 < x \<Longrightarrow> 0 < round64 x"
proof -
  assume x: "0 < x"
  have "(0::rat) < 2 powi binexp x" by simp
  also have "\<dots> \<le> round64 x" by (rule round64_pos_bounds(1) [OF x])
  finally show ?thesis .
qed

lemma round64_mono: "x \<le> y \<Longrightarrow> round64 x \<le> round64 y"
proof -
  assume xy: "x \<le> y"
  consider "0 < x" | "x \<le> 0" "0 \<le> y" | "y < 0" using xy by linarith
  then show ?thesis
  proof cases
    case 1
    then show ?thesis using xy by (rule round64_mono_pos)
  next
    case 2
    have "round64 x \<le> 0"
    proof (cases "x = 0")
      case True then show ?thesis by (simp add: round64_0)
    next
      case False
      with 2 have "0 < - x" by simp
      from round64_pos_pos [OF this] show ?thesis by (simp add: round64_minus)
    qed
    moreover have "0 \<le> round64 y"
    proof (cases "y = 0")
      case True then show ?thesis by (simp add: round64_0)
    next
      case False
      with 2 have "0 < y" by simp
      from round64_pos_pos [OF this] show ?thesis by simp
    qed
    ultimately show ?thesis by simp
  next
    case 3
    with xy have "0 < - y" "- y \<le> - x" by simp_all
    from round64_mono_pos [OF this] show ?thesis by (simp add: round64_minus)
  qed
qed

lemma round64_error_pos:
  assumes "0 < x"
  shows "\<bar>round64 x - x\<bar> \<le> x / 2 ^ 53"
proof -
  let ?u = "(2::rat) powi (binexp x - 52)"
  have u: "0 < ?u" by simp
  have "round64 x - x = (of_int (rne (x / ?u)) - x / ?u) * ?u"
    using u by (simp add: round64_pos [OF assms] left_diff_distrib)
  then have "\<bar>round64 x - x\<bar> = \<bar>of_int (rne (x / ?u)) - x / ?u\<bar> * ?u"
    using u by (simp add: abs_mult)
  also have "\<dots> \<le> 1 / 2 * ?u"
    using rne_error [of "x / ?u"] u by (intro mult_right_mono) simp_all
  also have "\<dots> = 2 powi binexp x / 2 ^ 53"
    by (simp add: power_int_diff)
  also have "\<dots> \<le> x / 2 ^ 53"
    using binexp_bounds(1) [OF assms] by (simp add: divide_right_mono)
  finally show ?thesis .
qed

lemma round64_error: "\<bar>round64 x - x\<bar> \<le> \<bar>x\<bar> / 2 ^ 53"
proof -
  consider "0 < x" | "x = 0" | "0 < - x" by linarith
  then show ?thesis
  proof cases
    case 1
    with round64_error_pos [OF 1] show ?thesis by simp
  next
    case 2
    then show ?thesis by (simp add: round64_0)
  next
    case 3
    from round64_error_pos [OF 3] have "\<bar>- round64 x + x\<bar> \<le> - x / 2 ^ 53"
      by (simp add: round64_minus)
    moreover have "\<bar>- round64 x + x\<bar> = \<bar>round64 x - x\<bar>" by simp
    ultimately show ?thesis using 3 by simp
  qed
qed

lemma round64_consts:
  "round64 1 = 1" "round64 100 = 100" "round64 200 = 200" "round64 (- 100) = - 100"
  by code_simp+

lemma fdiv_unit:
  assumes "u \<le> n" "0 < n"
  shows "0 \<le> fdiv (of_nat u) (of_nat n)" and "fdiv (of_nat u) (of_nat n) \<le> 1"
proof -
  have "(0::rat) \<le> of_nat u / of_nat n" by simp
  from round64_mono [OF this] show "0 \<le> fdiv (of_nat u) (of_nat n)"
    by (simp add: fdiv_def round64_0)
  have "(of_nat u :: rat) / of_nat n \<le> 1" using assms by (simp add: divide_le_eq)
  from round64_mono [OF this] show "fdiv (of_nat u) (of_nat n) \<le> 1"
    by (simp add: fdiv_def round64_consts)
qed

lemma fdiv_unit_error:
  assumes "u \<le> n" "0 < n"
  shows "\<bar>fdiv (of_nat u) (of_nat n) - of_nat u / of_nat n\<bar> \<le> 1 / 2 ^ 53"
proof -
  have q: "(0::rat) \<le> of_nat u / of_nat n" "(of_nat u :: rat) / of_nat n \<le> 1"
    using assms by (simp_all add: divide_le_eq)
  have "\<bar>fdiv (of_nat u) (of_nat n) - of_nat u / of_nat n\<bar> \<le> \<bar>of_nat u / of_nat n\<bar> / 2 ^ 53"
    unfolding fdiv_def by (rule round64_error)
  also have "\<dots> \<le> 1 / 2 ^ 53" using q by (simp add: divide_right_mono)
  finally show ?thesis .
qed

lemma fmul_unit:
  assumes "0 \<le> a" "a \<le> 1" "0 \<le> c" "round64 c = c"
  shows "0 \<le> fmul a c" and "fmul a c \<le> c" and "\<bar>fmul a c - a * c\<bar> \<le> c / 2 ^ 53"
proof -
  have p: "0 \<le> a * c" "a * c \<le> c"
    using assms by (simp_all add: mult_left_le_one_le)
  from round64_mono [OF p(1)] show "0 \<le> fmul a c" by (simp add: fmul_def round64_0)
  from round64_mono [OF p(2)] show "fmul a c \<le> c" by (simp add: fmul_def assms(4))
  have "\<bar>fmul a c - a * c\<bar> \<le> \<bar>a * c\<bar> / 2 ^ 53"
    unfolding fmul_def by (rule round64_error)
  also have "\<dots> \<le> c / 2 ^ 53" using p by (simp add: divide_right_mono)
  finally show "\<bar>fmul a c - a * c\<bar> \<le> c / 2 ^ 53" .
qed

section \<open>Properties of analyzeSession: defaults and bounds\<close>

lemma Math_round_mono: "x \<le> y \<Longrightarrow> Math_round x \<le> Math_round y"
  by (simp add: Math_round_def floor_mono)

lemma Math_round_of_int: "Math_round (of_int k) = k"
  unfolding Math_round_def by linarith

lemma Math_round_clamp:
  "Math_round (max 20 (min 100 x)) = max 20 (min 100 (Math_round x))"
proof -
  have m: "mono Math_round" by (simp add: mono_def Math_round_mono)
  have a: "Math_round 20 = 20" using Math_round_of_int [of 20] by simp
  have b: "Math_round 100 = 100" using Math_round_of_int [of 100] by simp
  show ?thesis
    using max_of_mono [OF m, of 20 "min 100 x"] min_of_mono [OF m, of 100 x] a b by simp
qed

lemma confidence_of_bounds: "20 \<le> confidence_of f n \<and> confidence_of f n \<le> 100"
  unfolding confidence_of_def Math_round_clamp by simp

lemma fillerRatio_of_mono: "f1 \<le> f2 \<Longrightarrow> fillerRatio_of f1 n \<le> fillerRatio_of f2 n"
  by (simp add: fillerRatio_of_def fdiv_def round64_mono divide_right_mono)

lemma fillerRatio_of_unit:
  assumes "f \<le> n"
  shows "0 \<le> fillerRatio_of f n" and "fillerRatio_of f n \<le> 1"
  using fdiv_unit [OF assms] by (simp_all add: fillerRatio_of_def)

lemma confidence_of_antimono:
  assumes "f1 \<le> f2"
  shows "confidence_of f2 n \<le> confidence_of f1 n"
proof -
  have "fillerRatio_of f1 n * 200 \<le> fillerRatio_of f2 n * 200"
    using fillerRatio_of_mono [OF assms, of n] by simp
  then have "fmul (fillerRatio_of f1 n) 200 \<le> fmul (fillerRatio_of f2 n) 200"
    unfolding fmul_def by (rule round64_mono)
  then have "100 - fmul (fillerRatio_of f2 n) 200 \<le> 100 - fmul (fillerRatio_of f1 n) 200"
    by simp
  then have "fsub 100 (fmul (fillerRatio_of f2 n) 200) \<le> fsub 100 (fmul (fillerRatio_of f1 n) 200)"
    unfolding fsub_def by (rule round64_mono)
  then show ?thesis
    unfolding confidence_of_def by (intro Math_round_mono max.mono min.mono order_refl)
qed

lemma estimatedTalkTime_of_bounds:
  assumes "u \<le> n"
  shows "0 \<le> estimatedTalkTime_of u n \<and> estimatedTalkTime_of u n \<le> 100"
proof (cases "n > 0")
  case True
  note q = fdiv_unit [OF assms True]
  note m = fmul_unit(1,2) [OF q, of 100, simplified round64_consts]
  have "Math_round 0 \<le> Math_round (fmul (fdiv (of_nat u) (of_nat n)) 100)"
    using m(1) by (intro Math_round_mono) simp
  moreover have "Math_round (fmul (fdiv (of_nat u) (of_nat n)) 100) \<le> Math_round 100"
    using m(2) by (intro Math_round_mono) simp
  moreover have "Math_round 0 = 0" using Math_round_of_int [of 0] by simp
  moreover have "Math_round 100 = 100" using Math_round_of_int [of 100] by simp
  ultimately show ?thesis using True by (simp add: estimatedTalkTime_of_def)
next
  case False
  then show ?thesis by (simp add: estimatedTalkTime_of_def)
qed

lemma filter_user_ok: "Null \<notin> set h \<Longrightarrow> filter_user h = Inr (filter is_user (objects h))"
proof (induction h)
  case Nil
  then show ?case by simp
next
  case (Cons e h)
  then show ?case by (cases e) simp_all
qed

lemma filter_user_err: "Null \<in> set h \<Longrightarrow> filter_user h = Inl TypeError"
proof (induction h)
  case Nil
  then show ?case by simp
next
  case (Cons e h)
  show ?case
  proof (cases e)
    case Null
    then show ?thesis by simp
  next
    case (Obj msg)
    with Cons show ?thesis by simp
  qed
qed

lemma filter_user_Inr:
  assumes "filter_user h = Inr msgs"
  shows "Null \<notin> set h" and "msgs = filter is_user (objects h)"
proof -
  show n: "Null \<notin> set h"
  proof
    assume "Null \<in> set h"
    from filter_user_err [OF this] assms show False by simp
  qed
  from filter_user_ok [OF n] assms show "msgs = filter is_user (objects h)" by simp
qed

lemma length_objects: "Null \<notin> set h \<Longrightarrow> length (objects h) = length h"
proof (induction h)
  case Nil
  then show ?case by simp
next
  case (Cons e h)
  then show ?case by (cases e) simp_all
qed

lemma length_user_le: "Null \<notin> set h \<Longrightarrow> length (filter is_user (objects h)) \<le> length h"
  using length_filter_le [of is_user "objects h"] by (simp add: length_objects)

lemma message_strings_ok:
  "list_all (\<lambda>m. message m \<noteq> None) ms \<Longrightarrow> message_strings ms = Inr (map message_text ms)"
  by (induction ms) (auto simp: message_text_def split: option.splits)

lemma message_strings_err:
  "\<not> list_all (\<lambda>m. message m \<noteq> None) ms \<Longrightarrow> message_strings ms = Inl TypeError"
  by (induction ms) (auto split: option.splits sum.splits simp: message_strings_ok)

lemma analyzeSession_default:
  "t = None \<or> t = Some [] \<Longrightarrow> analyzeSession t [] = Inr default_metrics"
  by (auto simp: analyzeSession_def)

text \<open>What a returned record says when the input is not the default one.\<close>

lemma analyzeSession_Inr:
  assumes "analyzeSession t h = Inr r" "\<not> is_default_input t h"
  shows "filter_user h = Inr (filter is_user (objects h))"
    and "Null \<notin> set h"
    and "message_strings (filter is_user (objects h)) =
           Inr (map message_text (filter is_user (objects h)))"
proof -
  from assms obtain msgs where f: "filter_user h = Inr msgs"
    by (cases "filter_user h")
       (simp_all add: analyzeSession_def is_default_input_def split: if_splits)
  from filter_user_Inr [OF f] f
  show u: "filter_user h = Inr (filter is_user (objects h))" and "Null \<notin> set h"
    by simp_all
  have "list_all (\<lambda>m. message m \<noteq> None) (filter is_user (objects h))"
  proof (rule ccontr)
    assume "\<not> ?thesis"
    then have "message_strings (filter is_user (objects h)) = Inl TypeError"
      by (rule message_strings_err)
    with assms u show False
      by (simp add: analyzeSession_def is_default_input_def Let_def split: if_splits)
  qed
  then show "message_strings (filter is_user (objects h)) =
           Inr (map message_text (filter is_user (objects h)))"
    by (rule message_strings_ok)
qed

lemma analyzeSession_computed:
  assumes "analyzeSession t h = Inr r" "\<not> is_default_input t h"
  shows "confidenceScore r = confidence_of (fillerWordCount r) (wordCount r)"
    and "fillerWordCount r \<le> wordCount r"
    and "talkTimeRatio r = estimatedTalkTime_of (length (filter is_user (objects h))) (length h)"
    and "conversationLength r = length h"
    and "\<exists>k. discovery_score r = discovery_score_of k \<and> discovery_questions_count r = Some k"
    and "\<exists>k. product_knowledge_score r = product_knowledge_score_of k"
    and "\<exists>k. objection_handling_score r = objection_handling_score_of k"
    and "\<exists>k. business_value_score r = business_value_score_of k"
    and "overall_effectiveness_score r = overall_effectiveness_score_of (discovery_score r)
           (product_knowledge_score r) (objection_handling_score r) (business_value_score r)"
  using assms analyzeSession_Inr(1,3) [OF assms]
  by (auto simp: analyzeSession_def is_default_input_def Let_def simp del: filter_filter
           split: if_splits)

lemma analyzeSession_messages:
  assumes "analyzeSession t h = Inr r" "\<not> is_default_input t h"
  shows "discovery_questions_count r =
           Some (length (filter is_discovery_question
                   (map message_text (filter is_user (objects h)))))"
    and "discovery_score r =
           discovery_score_of (length (filter is_discovery_question
                   (map message_text (filter is_user (objects h)))))"
  using assms analyzeSession_Inr(1,3) [OF assms]
  by (auto simp: analyzeSession_def is_default_input_def Let_def split: if_splits)

lemma analyzeSession_returns:
  assumes "Null \<notin> set h"
    and "list_all (\<lambda>m. message m \<noteq> None) (filter is_user (objects h))"
  shows "\<exists>r. analyzeSession t h = Inr r"
  using filter_user_ok [OF assms(1)] message_strings_ok [OF assms(2)]
  by (simp add: analyzeSession_def Let_def)

lemma analyzeSession_throws:
  assumes "Null \<in> set h \<or> \<not> list_all (\<lambda>m. message m \<noteq> None) (filter is_user (objects h))"
  shows "analyzeSession t h = Inl TypeError"
proof -
  from assms have ne: "h \<noteq> []" by auto
  show ?thesis
  proof (cases "Null \<in> set h")
    case True
    from filter_user_err [OF True] ne show ?thesis by (simp add: analyzeSession_def)
  next
    case False
    with assms have "\<not> list_all (\<lambda>m. message m \<noteq> None) (filter is_user (objects h))"
      by simp
    from message_strings_err [OF this] filter_user_ok [OF False] ne show ?thesis
      by (simp add: analyzeSession_def Let_def)
  qed
qed

lemma score_bounds:
  "1 \<le> discovery_score_of k \<and> discovery_score_of k \<le> 5"
  "1 \<le> product_knowledge_score_of k \<and> product_knowledge_score_of k \<le> 5"
  "1 \<le> objection_handling_score_of k \<and> objection_handling_score_of k \<le> 5"
  "1 \<le> business_value_score_of k \<and> business_value_score_of k \<le> 5"
  "1 \<le> overall_effectiveness_score_of a b c d \<and> overall_effectiveness_score_of a b c d \<le> 5"
  by (simp_all add: discovery_score_of_def product_knowledge_score_of_def
        objection_handling_score_of_def business_value_score_of_def
        overall_effectiveness_score_of_def)

text \<open>
  C2. With an absent or empty transcript and an empty history, \<open>analyzeSession\<close> returns the
  default record: word and filler counts 0, confidence 50, talk-time ratio 50, average
  sentence length 0, conversation length 0, and all five sub-scores 2.
\<close>

theorem analyzeSession_empty_input:
  "analyzeSession None [] = Inr default_metrics \<and>
   analyzeSession (Some []) [] = Inr default_metrics \<and>
   wordCount default_metrics = 0 \<and> fillerWordCount default_metrics = 0 \<and>
   confidenceScore default_metrics = 50 \<and> talkTimeRatio default_metrics = 50 \<and>
   averageSentenceLength default_metrics = 0 \<and> conversationLength default_metrics = 0 \<and>
   discovery_score default_metrics = 2 \<and> product_knowledge_score default_metrics = 2 \<and>
   objection_handling_score default_metrics = 2 \<and> business_value_score default_metrics = 2 \<and>
   overall_effectiveness_score default_metrics = 2"
  by (simp add: analyzeSession_default default_metrics_def)

text \<open>
  C3. Every record that \<open>analyzeSession\<close> returns has its confidence score in 20..100, its
  talk-time ratio in 0..100 and each of its five sub-scores in 1..5.
\<close>

theorem analyzeSession_bounds:
  assumes "analyzeSession t h = Inr r"
  shows "20 \<le> confidenceScore r \<and> confidenceScore r \<le> 100 \<and>
         0 \<le> talkTimeRatio r \<and> talkTimeRatio r \<le> 100 \<and>
         1 \<le> discovery_score r \<and> discovery_score r \<le> 5 \<and>
         1 \<le> product_knowledge_score r \<and> product_knowledge_score r \<le> 5 \<and>
         1 \<le> objection_handling_score r \<and> objection_handling_score r \<le> 5 \<and>
         1 \<le> business_value_score r \<and> business_value_score r \<le> 5 \<and>
         1 \<le> overall_effectiveness_score r \<and> overall_effectiveness_score r \<le> 5"
proof (cases "is_default_input t h")
  case True
  with assms have "r = default_metrics"
    by (auto simp: is_default_input_def analyzeSession_default)
  then show ?thesis by (simp add: default_metrics_def)
next
  case False
  note c = analyzeSession_computed [OF assms False]
  have conf: "20 \<le> confidenceScore r \<and> confidenceScore r \<le> 100"
    using c(1) confidence_of_bounds by simp
  have talk: "0 \<le> talkTimeRatio r \<and> talkTimeRatio r \<le> 100"
    using c(3) estimatedTalkTime_of_bounds [OF length_user_le [OF analyzeSession_Inr(2) [OF assms False]]]
    by simp
  have d: "1 \<le> discovery_score r \<and> discovery_score r \<le> 5"
    using c(5) score_bounds(1) by auto
  have p: "1 \<le> product_knowledge_score r \<and> product_knowledge_score r \<le> 5"
    using c(6) score_bounds(2) by auto
  have ob: "1 \<le> objection_handling_score r \<and> objection_handling_score r \<le> 5"
    using c(7) score_bounds(3) by auto
  have b: "1 \<le> business_value_score r \<and> business_value_score r \<le> 5"
    using c(8) score_bounds(4) by auto
  have ov: "1 \<le> overall_effectiveness_score r \<and> overall_effectiveness_score r \<le> 5"
    using c(9) score_bounds(5) by simp
  from conf talk d p ob b ov show ?thesis by simp
qed

lemma filler_heavy_example:
  "analyzeSession None
     [Obj \<lparr>speaker = ''user'', message = Some ''Um, so, like, I uh think this is good''\<rparr>] =
   Inr \<lparr>talkTimeRatio = 100, fillerWordCount = 3, confidenceScore = 33,
        wordCount = 9, averageSentenceLength = 9, conversationLength = 1,
        discovery_score = 1, product_knowledge_score = 1,
        objection_handling_score = 1, business_value_score = 1,
        overall_effectiveness_score = 1, google_ads_concepts_used = Some [],
        discovery_questions_count = Some 0,
        objection_handling_count = Some 0,
        business_value_mentions = Some 0\<rparr>"
  by code_simp

theorem analyzeSession_bounds_witness:
  "analyzeSession None
     [Obj \<lparr>speaker = ''user'', message = Some ''Um, so, like, I uh think this is good''\<rparr>] =
   Inr \<lparr>talkTimeRatio = 100, fillerWordCount = 3, confidenceScore = 33,
        wordCount = 9, averageSentenceLength = 9, conversationLength = 1,
        discovery_score = 1, product_knowledge_score = 1,
        objection_handling_score = 1, business_value_score = 1,
        overall_effectiveness_score = 1, google_ads_concepts_used = Some [],
        discovery_questions_count = Some 0,
        objection_handling_count = Some 0,
        business_value_mentions = Some 0\<rparr> \<and>
   (20::int) \<le> 33 \<and> (33::int) \<le> 100 \<and> (0::int) \<le> 100 \<and> (1::int) \<le> 5"
  using analyzeSession_bounds [OF filler_heavy_example] filler_heavy_example by simp

section \<open>Sub-scores and the confidence score\<close>

lemma product_knowledge_score_of_mono:
  "m \<le> n \<Longrightarrow> product_knowledge_score_of m \<le> product_knowledge_score_of n"
  by (auto simp: product_knowledge_score_of_def min_def)

lemma objection_handling_score_of_mono:
  "m \<le> n \<Longrightarrow> objection_handling_score_of m \<le> objection_handling_score_of n"
  by (auto simp: objection_handling_score_of_def min_def)

lemma business_value_score_of_mono:
  "m \<le> n \<Longrightarrow> business_value_score_of m \<le> business_value_score_of n"
  by (auto simp: business_value_score_of_def min_def)

lemma score_of_0:
  "product_knowledge_score_of 0 = 1" "objection_handling_score_of 0 = 1"
  "business_value_score_of 0 = 1"
  by (simp_all add: product_knowledge_score_of_def objection_handling_score_of_def
        business_value_score_of_def)

lemma discovery_score_of_mono: "m \<le> n \<Longrightarrow> discovery_score_of m \<le> discovery_score_of n"
proof -
  assume "m \<le> n"
  then have "(of_nat m :: rat) / 2 \<le> of_nat n / 2" by simp
  then have "fdiv (of_nat m) 2 \<le> fdiv (of_nat n) 2"
    unfolding fdiv_def by (rule round64_mono)
  then have "Math_ceil (fdiv (of_nat m) 2) \<le> Math_ceil (fdiv (of_nat n) 2)"
    unfolding Math_ceil_def by (rule ceiling_mono)
  then show ?thesis by (simp add: discovery_score_of_def)
qed

lemma discovery_score_of_0: "discovery_score_of 0 = 1"
  by (simp add: discovery_score_of_def Math_ceil_def fdiv_def round64_0)

text \<open>
  C6. Each of the four count-to-score mappings (discovery, product knowledge, objection
  handling, business value) is non-decreasing in the count, never exceeds 5, and maps a
  zero count to 1, the least score it takes.
\<close>

theorem sub_scores_monotone_bounded:
  assumes "m \<le> n"
  shows "discovery_score_of m \<le> discovery_score_of n \<and>
         product_knowledge_score_of m \<le> product_knowledge_score_of n \<and>
         objection_handling_score_of m \<le> objection_handling_score_of n \<and>
         business_value_score_of m \<le> business_value_score_of n \<and>
         discovery_score_of n \<le> 5 \<and> product_knowledge_score_of n \<le> 5 \<and>
         objection_handling_score_of n \<le> 5 \<and> business_value_score_of n \<le> 5 \<and>
         discovery_score_of 0 = 1 \<and> product_knowledge_score_of 0 = 1 \<and>
         objection_handling_score_of 0 = 1 \<and> business_value_score_of 0 = 1 \<and>
         1 \<le> discovery_score_of m \<and> 1 \<le> product_knowledge_score_of m \<and>
         1 \<le> objection_handling_score_of m \<and> 1 \<le> business_value_score_of m"
  using discovery_score_of_mono [OF assms] product_knowledge_score_of_mono [OF assms]
    objection_handling_score_of_mono [OF assms] business_value_score_of_mono [OF assms]
    discovery_score_of_0 score_of_0
    score_bounds(1) [of n] score_bounds(2) [of n] score_bounds(3) [of n] score_bounds(4) [of n]
    score_bounds(1) [of m] score_bounds(2) [of m] score_bounds(3) [of m] score_bounds(4) [of m]
  by simp

theorem sub_scores_monotone_bounded_witness:
  "(1::nat) \<le> 4 \<and>
   discovery_score_of 1 \<le> discovery_score_of 4 \<and>
   product_knowledge_score_of 1 \<le> product_knowledge_score_of 4 \<and>
   objection_handling_score_of 1 \<le> objection_handling_score_of 4 \<and>
   business_value_score_of 1 \<le> business_value_score_of 4 \<and>
   discovery_score_of 4 \<le> 5 \<and> discovery_score_of 0 = 1"
  using sub_scores_monotone_bounded [of 1 4] by simp

lemma fillers_le_words:
  assumes "analyzeSession t h = Inr r"
  shows "fillerWordCount r \<le> wordCount r"
proof (cases "is_default_input t h")
  case True
  with assms have "r = default_metrics"
    by (auto simp: is_default_input_def analyzeSession_default)
  then show ?thesis by (simp add: default_metrics_def)
next
  case False
  from analyzeSession_computed(2) [OF assms False] show ?thesis .
qed

text \<open>
  C10. Every record that \<open>analyzeSession\<close> returns has \<open>fillerWordCount \<le> wordCount\<close>, so
  the filler ratio of the confidence formula lies between 0 and 1.
\<close>

theorem filler_count_le_word_count:
  assumes "analyzeSession t h = Inr r"
  shows "fillerWordCount r \<le> wordCount r \<and>
         0 \<le> fillerRatio_of (fillerWordCount r) (wordCount r) \<and>
         fillerRatio_of (fillerWordCount r) (wordCount r) \<le> 1"
proof -
  have le: "fillerWordCount r \<le> wordCount r" by (rule fillers_le_words [OF assms])
  from fillerRatio_of_unit [OF le] le show ?thesis by simp
qed

theorem filler_count_le_word_count_witness:
  "analyzeSession None
     [Obj \<lparr>speaker = ''user'', message = Some ''Um, so, like, I uh think this is good''\<rparr>] =
   Inr \<lparr>talkTimeRatio = 100, fillerWordCount = 3, confidenceScore = 33,
        wordCount = 9, averageSentenceLength = 9, conversationLength = 1,
        discovery_score = 1, product_knowledge_score = 1,
        objection_handling_score = 1, business_value_score = 1,
        overall_effectiveness_score = 1, google_ads_concepts_used = Some [],
        discovery_questions_count = Some 0,
        objection_handling_count = Some 0,
        business_value_mentions = Some 0\<rparr> \<and>
   (3::nat) \<le> 9 \<and> 0 \<le> fillerRatio_of 3 9 \<and> fillerRatio_of 3 9 \<le> 1"
  using filler_count_le_word_count [OF filler_heavy_example] filler_heavy_example by simp

lemma wordCount_default_input:
  assumes "analyzeSession t h = Inr r" "is_default_input t h"
  shows "wordCount r = 0"
proof -
  from assms have "r = default_metrics"
    by (auto simp: is_default_input_def analyzeSession_default)
  then show ?thesis by (simp add: default_metrics_def)
qed

lemma Math_round_near:
  assumes "x \<le> y + 1"
  shows "Math_round x \<le> Math_round y + 1"
  using assms unfolding Math_round_def by linarith

lemma clamp_near:
  fixes c y :: rat
  assumes "\<bar>c - y\<bar> \<le> 1"
  shows "max 20 (min 100 c) \<le> max 20 (min 100 y) + 1"
    and "max 20 (min 100 y) \<le> max 20 (min 100 c) + 1"
  using assms by linarith+

lemma three_errors:
  fixes a b c q :: rat
  assumes "\<bar>c - (100 - b)\<bar> \<le> e1" and "\<bar>b - a * 200\<bar> \<le> e2" and "\<bar>a - q\<bar> \<le> e3"
  shows "\<bar>c - (100 - 200 * q)\<bar> \<le> e1 + e2 + 200 * e3"
  using assms by linarith

text \<open>The unrounded confidence of the code is within \<open>500 / 2^53\<close> of the exact value.\<close>

lemma confidence_error:
  assumes "f \<le> n"
  shows "\<bar>fsub 100 (fmul (fillerRatio_of f n) 200)
          - (100 - 200 * (if n = 0 then 0 else of_nat f / of_nat n))\<bar> \<le> 500 / 2 ^ 53"
proof -
  define q :: rat where "q = (if n = 0 then 0 else of_nat f / of_nat n)"
  define a where "a = fillerRatio_of f n"
  define b where "b = fmul a 200"
  define c where "c = fsub 100 b"
  have ea: "\<bar>a - q\<bar> \<le> 1 / 2 ^ 53"
  proof (cases "n = 0")
    case True
    then show ?thesis by (simp add: a_def q_def fillerRatio_of_def)
  next
    case False
    then have "0 < n" by simp
    from fdiv_unit_error [OF assms this] False show ?thesis
      by (simp add: a_def q_def fillerRatio_of_def)
  qed
  have u: "0 \<le> a" "a \<le> 1"
    using fillerRatio_of_unit [OF assms] by (simp_all add: a_def)
  have r200: "round64 200 = 200" by (rule round64_consts)
  have b0: "0 \<le> b" and b200: "b \<le> 200" and eb: "\<bar>b - a * 200\<bar> \<le> 200 / 2 ^ 53"
    unfolding b_def using fmul_unit [OF u _ r200] by simp_all
  have "\<bar>c - (100 - b)\<bar> \<le> \<bar>100 - b\<bar> / 2 ^ 53"
    unfolding c_def fsub_def by (rule round64_error)
  also have "\<dots> \<le> 100 / 2 ^ 53"
  proof (rule divide_right_mono)
    from b0 b200 show "\<bar>100 - b\<bar> \<le> 100" by linarith
  qed simp
  finally have ec: "\<bar>c - (100 - b)\<bar> \<le> 100 / 2 ^ 53" .
  have "\<bar>c - (100 - 200 * q)\<bar> \<le> 100 / 2 ^ 53 + 200 / 2 ^ 53 + 200 * (1 / 2 ^ 53)"
    by (rule three_errors [OF ec eb ea])
  also have "\<dots> = 500 / 2 ^ 53" by simp
  finally show ?thesis by (simp only: c_def b_def a_def q_def)
qed

lemma confidence_of_near_spec:
  assumes "f \<le> n"
  shows "\<bar>confidence_of f n - spec_confidence f n\<bar> \<le> 1"
proof -
  define y :: rat where "y = 100 - 200 * (if n = 0 then 0 else of_nat f / of_nat n)"
  define c where "c = fsub 100 (fmul (fillerRatio_of f n) 200)"
  have "(500::rat) / 2 ^ 53 \<le> 1" by simp
  with confidence_error [OF assms] have e: "\<bar>c - y\<bar> \<le> 1"
    unfolding c_def y_def by linarith
  have "confidence_of f n = Math_round (max 20 (min 100 c))"
    by (simp only: confidence_of_def c_def)
  moreover have "spec_confidence f n = Math_round (max 20 (min 100 y))"
    by (simp only: spec_confidence_def y_def Math_round_clamp)
  moreover note Math_round_near [OF clamp_near(1) [OF e]] Math_round_near [OF clamp_near(2) [OF e]]
  ultimately show ?thesis by linarith
qed

lemma tie_109_of_400: "confidence_of 109 400 = 45" "spec_confidence 109 400 = 46"
  by code_simp+

text \<open>
  C7, counterexample. The stated formula gives 100 for no words, but the default input (no
  transcript, empty history) has word count 0 and confidence score 50. With 109 filler
  words among 400 words the code computes 45, the formula 46.
\<close>

theorem confidence_formula_counterexample:
  "analyzeSession None [] = Inr default_metrics \<and>
   wordCount default_metrics = 0 \<and> fillerWordCount default_metrics = 0 \<and>
   confidenceScore default_metrics = 50 \<and> spec_confidence 0 0 = 100 \<and>
   confidence_of 109 400 = 45 \<and> spec_confidence 109 400 = 46"
proof -
  have "Math_round 100 = 100" using Math_round_of_int [of 100] by simp
  then have "spec_confidence 0 0 = 100" by (simp add: spec_confidence_def)
  then show ?thesis
    by (simp add: analyzeSession_default default_metrics_def tie_109_of_400)
qed

text \<open>
  C7, amended. Of two inputs whose records have the same word count, the one with the
  larger filler count has a confidence score that is not above the other's. For every input
  but the default one the confidence score is \<open>Math.round\<close> of
  \<open>max(20, min(100, 100 - (fillerWordCount / wordCount) * 200))\<close> computed on doubles (the
  ratio being 0 for no words); it is non-increasing in the filler count and differs by at
  most 1 from \<open>clamp(round(100 - 200 * fillerWordCount / wordCount), 20, 100)\<close>. For the
  default input the word count is 0 and the confidence score is 50.
\<close>

theorem confidence_monotone_in_fillers:
  "(analyzeSession t1 h1 = Inr r1 \<and> analyzeSession t2 h2 = Inr r2 \<and>
      wordCount r1 = wordCount r2 \<and> fillerWordCount r1 < fillerWordCount r2 \<longrightarrow>
      confidenceScore r2 \<le> confidenceScore r1) \<and>
   (analyzeSession t h = Inr r \<and> \<not> is_default_input t h \<longrightarrow>
      confidenceScore r =
        Math_round (max 20 (min 100
          (fsub 100 (fmul (if wordCount r > 0
                           then fdiv (of_nat (fillerWordCount r)) (of_nat (wordCount r))
                           else 0) 200)))) \<and>
      \<bar>confidenceScore r - spec_confidence (fillerWordCount r) (wordCount r)\<bar> \<le> 1) \<and>
   (is_default_input t0 h0 \<longrightarrow>
      analyzeSession t0 h0 = Inr default_metrics \<and> wordCount default_metrics = 0 \<and>
      confidenceScore default_metrics = 50) \<and>
   (f1 \<le> f2 \<longrightarrow> confidence_of f2 n \<le> confidence_of f1 n)"
proof (intro conjI impI)
  assume a: "analyzeSession t1 h1 = Inr r1 \<and> analyzeSession t2 h2 = Inr r2 \<and>
      wordCount r1 = wordCount r2 \<and> fillerWordCount r1 < fillerWordCount r2"
  then have r1: "analyzeSession t1 h1 = Inr r1" and r2: "analyzeSession t2 h2 = Inr r2"
    and w: "wordCount r1 = wordCount r2" and f: "fillerWordCount r1 < fillerWordCount r2"
    by simp_all
  have "fillerWordCount r2 \<le> wordCount r2" by (rule fillers_le_words [OF r2])
  with w f have pos: "0 < wordCount r1" "0 < wordCount r2" by simp_all
  have n1: "\<not> is_default_input t1 h1"
    using wordCount_default_input [OF r1] pos(1) by auto
  have n2: "\<not> is_default_input t2 h2"
    using wordCount_default_input [OF r2] pos(2) by auto
  have c1: "confidenceScore r1 = confidence_of (fillerWordCount r1) (wordCount r1)"
    by (rule analyzeSession_computed(1) [OF r1 n1])
  have c2: "confidenceScore r2 = confidence_of (fillerWordCount r2) (wordCount r2)"
    by (rule analyzeSession_computed(1) [OF r2 n2])
  have "confidence_of (fillerWordCount r2) (wordCount r2)
          \<le> confidence_of (fillerWordCount r1) (wordCount r2)"
    using f by (intro confidence_of_antimono) simp
  with c1 c2 w show "confidenceScore r2 \<le> confidenceScore r1" by simp
next
  assume a: "analyzeSession t h = Inr r \<and> \<not> is_default_input t h"
  then have c: "confidenceScore r = confidence_of (fillerWordCount r) (wordCount r)"
    using analyzeSession_computed(1) [of t h r] by simp
  then show "confidenceScore r =
        Math_round (max 20 (min 100
          (fsub 100 (fmul (if wordCount r > 0
                           then fdiv (of_nat (fillerWordCount r)) (of_nat (wordCount r))
                           else 0) 200))))"
    by (simp add: confidence_of_def fillerRatio_of_def)
  from a have "fillerWordCount r \<le> wordCount r" using fillers_le_words [of t h r] by simp
  from confidence_of_near_spec [OF this] c
  show "\<bar>confidenceScore r - spec_confidence (fillerWordCount r) (wordCount r)\<bar> \<le> 1"
    by simp
next
  assume "is_default_input t0 h0"
  then show "analyzeSession t0 h0 = Inr default_metrics"
    by (auto simp: is_default_input_def analyzeSession_default)
next
  show "wordCount default_metrics = 0" and "confidenceScore default_metrics = 50"
    by (simp_all add: default_metrics_def)
next
  assume "f1 \<le> f2"
  then show "confidence_of f2 n \<le> confidence_of f1 n" by (rule confidence_of_antimono)
qed

lemma one_filler_example:
  "analyzeSession (Some ''Um this is a very good plan for you'') [] =
   Inr \<lparr>talkTimeRatio = 50, fillerWordCount = 1, confidenceScore = 78,
        wordCount = 9, averageSentenceLength = 9, conversationLength = 0,
        discovery_score = 1, product_knowledge_score = 1,
        objection_handling_score = 1, business_value_score = 1,
        overall_effectiveness_score = 1, google_ads_concepts_used = Some [],
        discovery_questions_count = Some 0,
        objection_handling_count = Some 0,
        business_value_mentions = Some 0\<rparr>"
  by code_simp

theorem confidence_monotone_in_fillers_witness:
  "analyzeSession (Some ''Um this is a very good plan for you'') [] =
   Inr \<lparr>talkTimeRatio = 50, fillerWordCount = 1, confidenceScore = 78,
        wordCount = 9, averageSentenceLength = 9, conversationLength = 0,
        discovery_score = 1, product_knowledge_score = 1,
        objection_handling_score = 1, business_value_score = 1,
        overall_effectiveness_score = 1, google_ads_concepts_used = Some [],
        discovery_questions_count = Some 0,
        objection_handling_count = Some 0,
        business_value_mentions = Some 0\<rparr> \<and>
   analyzeSession None
     [Obj \<lparr>speaker = ''user'', message = Some ''Um, so, like, I uh think this is good''\<rparr>] =
   Inr \<lparr>talkTimeRatio = 100, fillerWordCount = 3, confidenceScore = 33,
        wordCount = 9, averageSentenceLength = 9, conversationLength = 1,
        discovery_score = 1, product_knowledge_score = 1,
        objection_handling_score = 1, business_value_score = 1,
        overall_effectiveness_score = 1, google_ads_concepts_used = Some [],
        discovery_questions_count = Some 0,
        objection_handling_count = Some 0,
        business_value_mentions = Some 0\<rparr> \<and>
   (9::nat) = 9 \<and> (1::nat) < 3 \<and> (33::int) \<le> 78 \<and>
   \<not> is_default_input (Some ''Um this is a very good plan for you'') [] \<and>
   \<bar>78 - spec_confidence 1 9\<bar> \<le> 1 \<and>
   is_default_input None [] \<and> analyzeSession None [] = Inr default_metrics \<and>
   (1::nat) \<le> 3 \<and> confidence_of 3 9 \<le> confidence_of 1 9"
proof -
  let ?t1 = "Some ''Um this is a very good plan for you''"
  let ?h2 = "[Obj \<lparr>speaker = ''user'', message = Some ''Um, so, like, I uh think this is good''\<rparr>]"
  let ?r1 = "\<lparr>talkTimeRatio = 50, fillerWordCount = 1, confidenceScore = 78,
        wordCount = 9, averageSentenceLength = 9, conversationLength = 0,
        discovery_score = 1, product_knowledge_score = 1,
        objection_handling_score = 1, business_value_score = 1,
        overall_effectiveness_score = 1, google_ads_concepts_used = Some [],
        discovery_questions_count = Some 0,
        objection_handling_count = Some 0,
        business_value_mentions = Some 0\<rparr>"
  let ?r2 = "\<lparr>talkTimeRatio = 100, fillerWordCount = 3, confidenceScore = 33,
        wordCount = 9, averageSentenceLength = 9, conversationLength = 1,
        discovery_score = 1, product_knowledge_score = 1,
        objection_handling_score = 1, business_value_score = 1,
        overall_effectiveness_score = 1, google_ads_concepts_used = Some [],
        discovery_questions_count = Some 0,
        objection_handling_count = Some 0,
        business_value_mentions = Some 0\<rparr>"
  note w = confidence_monotone_in_fillers
    [of ?t1 "[]" ?r1 None ?h2 ?r2 ?t1 "[]" ?r1 None "[]" 1 3 9]
  have nd: "\<not> is_default_input ?t1 []" and d: "is_default_input None []"
    by (simp_all add: is_default_input_def)
  from w one_filler_example nd have "\<bar>78 - spec_confidence 1 9\<bar> \<le> 1" by simp
  moreover from w have "confidence_of 3 9 \<le> confidence_of 1 9" by simp
  moreover from w d have "analyzeSession None [] = Inr default_metrics" by blast
  ultimately show ?thesis using one_filler_example filler_heavy_example nd d by simp
qed

section \<open>Histories without trainee turns\<close>

lemma Math_round_0: "Math_round 0 = 0"
  using Math_round_of_int [of 0] by simp

lemma Math_round_100: "Math_round 100 = 100"
  using Math_round_of_int [of 100] by simp

lemma words_of_empty: "split_on is_space (toLowerCase []) = [[]]"
  by (simp add: split_on_def toLowerCase_def)

lemma confidence_of_no_words: "confidence_of 0 0 = 100"
  by (simp add: confidence_of_def fillerRatio_of_def fmul_def fsub_def round64_0
        round64_consts Math_round_100)

lemma estimatedTalkTime_of_no_user: "0 < n \<Longrightarrow> estimatedTalkTime_of 0 n = 0"
  by (simp add: estimatedTalkTime_of_def fdiv_def fmul_def round64_0 Math_round_0)

text \<open>
  C9. For a non-empty history without a turn of speaker \<open>user\<close>, and any transcript,
  \<open>analyzeSession\<close> returns a record with word count 0, confidence score 100 and talk-time
  ratio 0; the record does not depend on the transcript, and it differs from the default
  record, whose confidence score and talk-time ratio are 50.
\<close>

theorem no_trainee_turns:
  assumes "h \<noteq> []" and "filter_user h = Inr []"
  shows "\<exists>r. analyzeSession t h = Inr r \<and> wordCount r = 0 \<and> fillerWordCount r = 0 \<and>
             confidenceScore r = 100 \<and> talkTimeRatio r = 0 \<and>
             analyzeSession None h = Inr r \<and>
             confidenceScore default_metrics = 50 \<and> talkTimeRatio default_metrics = 50"
  using assms
  by (simp add: analyzeSession_def Let_def words_of_empty confidence_of_no_words
        estimatedTalkTime_of_no_user default_metrics_def)

theorem no_trainee_turns_witness:
  "[Obj \<lparr>speaker = ''ai'', message = Some ''Hello there''\<rparr>] \<noteq> [] \<and>
   filter_user [Obj \<lparr>speaker = ''ai'', message = Some ''Hello there''\<rparr>] = Inr [] \<and>
   (\<exists>r. analyzeSession (Some ''um well'')
          [Obj \<lparr>speaker = ''ai'', message = Some ''Hello there''\<rparr>] = Inr r
        \<and> wordCount r = 0 \<and> confidenceScore r = 100 \<and> talkTimeRatio r = 0)"
proof -
  have u: "filter_user [Obj \<lparr>speaker = ''ai'', message = Some ''Hello there''\<rparr>] = Inr []"
    by (simp add: is_user_def)
  show ?thesis
    using no_trainee_turns [OF _ u, of "Some ''um well''"] u by auto
qed

section \<open>Malformed histories and the talk-time ratio\<close>

lemma sessions_end_throws:
  assumes "Null \<in> set h \<or> \<not> list_all (\<lambda>msg. message msg \<noteq> None) (filter is_user (objects h))"
  shows "sessions_end (Some (c # cs)) t h = Status500"
  using analyzeSession_throws [OF assms] by (simp add: sessions_end_def Let_def)

lemma sessions_end_returns:
  assumes "Null \<notin> set h"
    and "list_all (\<lambda>msg. message msg \<noteq> None) (filter is_user (objects h))"
  shows "sessions_end (Some (c # cs)) t h \<noteq> Status500"
proof -
  obtain r where
    "analyzeSession (redactPII (case t of None \<Rightarrow> Some [] | Some x \<Rightarrow> Some x)) h = Inr r"
    using analyzeSession_returns [OF assms] by blast
  then show ?thesis by (simp add: sessions_end_def Let_def)
qed

text \<open>
  C1, counterexample. A history whose only trainee turn has no string \<open>message\<close> makes
  \<open>analyzeSession\<close> throw a \<open>TypeError\<close>, and the handler answers 500: no record is
  returned in its place.
\<close>

theorem analyzeSession_malformed_turn_counterexample:
  "analyzeSession None [Obj \<lparr>speaker = ''user'', message = None\<rparr>] = Inl TypeError \<and>
   sessions_end (Some ''s1'') None [Obj \<lparr>speaker = ''user'', message = None\<rparr>] = Status500"
proof -
  have bad: "Null \<in> set [Obj \<lparr>speaker = ''user'', message = None\<rparr>] \<or>
             \<not> list_all (\<lambda>msg. message msg \<noteq> None)
               (filter is_user (objects [Obj \<lparr>speaker = ''user'', message = None\<rparr>]))"
    by (simp add: is_user_def)
  show ?thesis
    using analyzeSession_throws [OF bad, of None] sessions_end_throws [OF bad, of _ _ None]
    by simp
qed

text \<open>
  C1, amended. For a transcript that is absent or a string and a history that is an array,
  \<open>analyzeSession\<close> returns a record exactly when no element of the history is \<open>null\<close> and
  every trainee turn has a string \<open>message\<close>; otherwise it throws a \<open>TypeError\<close>, which the
  handler of \<open>/api/sessions/end\<close> answers with status 500.
\<close>

theorem analyzeSession_returns_iff_string_messages:
  "((\<exists>r. analyzeSession t h = Inr r) \<longleftrightarrow>
      Null \<notin> set h \<and> list_all (\<lambda>msg. message msg \<noteq> None) (filter is_user (objects h))) \<and>
   (analyzeSession t h = Inl TypeError \<longleftrightarrow>
      Null \<in> set h \<or> \<not> list_all (\<lambda>msg. message msg \<noteq> None) (filter is_user (objects h))) \<and>
   (sessions_end (Some (c # cs)) t h = Status500 \<longleftrightarrow>
      Null \<in> set h \<or> \<not> list_all (\<lambda>msg. message msg \<noteq> None) (filter is_user (objects h)))"
proof (cases "Null \<in> set h \<or>
    \<not> list_all (\<lambda>msg. message msg \<noteq> None) (filter is_user (objects h))")
  case True
  from analyzeSession_throws [OF True, of t] sessions_end_throws [OF True, of c cs t] True
  show ?thesis by auto
next
  case False
  then have ok: "Null \<notin> set h"
    "list_all (\<lambda>msg. message msg \<noteq> None) (filter is_user (objects h))"
    by simp_all
  from analyzeSession_returns [OF ok, of t] sessions_end_returns [OF ok, of c cs t] ok
  show ?thesis by auto
qed

theorem analyzeSession_returns_iff_string_messages_witness:
  "Null \<notin> set [Obj \<lparr>speaker = ''user'', message = Some ''Hello''\<rparr>,
                 Obj \<lparr>speaker = ''ai'', message = None\<rparr>] \<and>
   list_all (\<lambda>msg. message msg \<noteq> None)
     (filter is_user (objects [Obj \<lparr>speaker = ''user'', message = Some ''Hello''\<rparr>,
                               Obj \<lparr>speaker = ''ai'', message = None\<rparr>])) \<and>
   (\<exists>r. analyzeSession (Some ''x'')
          [Obj \<lparr>speaker = ''user'', message = Some ''Hello''\<rparr>,
           Obj \<lparr>speaker = ''ai'', message = None\<rparr>] = Inr r) \<and>
   sessions_end (Some ''s1'') (Some ''x'')
          [Obj \<lparr>speaker = ''user'', message = Some ''Hello''\<rparr>,
           Obj \<lparr>speaker = ''ai'', message = None\<rparr>] \<noteq> Status500 \<and>
   Null \<in> set [Null] \<and> analyzeSession (Some ''x'') [Null] = Inl TypeError \<and>
   sessions_end (Some ''s1'') (Some ''x'') [Null] = Status500"
proof -
  let ?h = "[Obj \<lparr>speaker = ''user'', message = Some ''Hello''\<rparr>,
             Obj \<lparr>speaker = ''ai'', message = None\<rparr>]"
  have ok: "Null \<notin> set ?h"
    "list_all (\<lambda>msg. message msg \<noteq> None) (filter is_user (objects ?h))"
    by (simp_all add: is_user_def)
  note w1 = analyzeSession_returns_iff_string_messages [of "Some ''x''" ?h "CHR ''s''" "''1''"]
  note w2 = analyzeSession_returns_iff_string_messages
    [of "Some ''x''" "[Null]" "CHR ''s''" "''1''"]
  from w1 ok have "(\<exists>r. analyzeSession (Some ''x'') ?h = Inr r) \<and>
      sessions_end (Some ''s1'') (Some ''x'') ?h \<noteq> Status500"
    by blast
  moreover from w2 have "analyzeSession (Some ''x'') [Null] = Inl TypeError \<and>
      sessions_end (Some ''s1'') (Some ''x'') [Null] = Status500"
    by simp
  ultimately show ?thesis using ok by simp
qed

lemma analyzeSession_nonempty_transcript:
  assumes "s \<noteq> []"
  shows "\<exists>r. analyzeSession (Some s) [] = Inr r \<and> talkTimeRatio r = 50"
  using assms by (simp add: analyzeSession_def Let_def estimatedTalkTime_of_def)

lemma estimatedTalkTime_words_bounds:
  "20 \<le> Math_round (estimatedTalkTime_words n) \<and> Math_round (estimatedTalkTime_words n) \<le> 80"
proof -
  have a: "(20::rat) \<le> estimatedTalkTime_words n" "estimatedTalkTime_words n \<le> (80::rat)"
    by (simp_all add: estimatedTalkTime_words_def)
  have "Math_round 20 \<le> Math_round (estimatedTalkTime_words n)"
    by (rule Math_round_mono [OF a(1)])
  moreover have "Math_round (estimatedTalkTime_words n) \<le> Math_round 80"
    by (rule Math_round_mono [OF a(2)])
  moreover have "Math_round 20 = 20" using Math_round_of_int [of 20] by simp
  moreover have "Math_round 80 = 80" using Math_round_of_int [of 80] by simp
  ultimately show ?thesis by simp
qed

lemma analyzeSession_transcript_talk:
  assumes "s \<noteq> []"
  shows "t_talkTimeRatio (analyzeSession_transcript (Some s)) =
           Math_round (estimatedTalkTime_words (t_wordCount (analyzeSession_transcript (Some s))))"
  using assms by (simp add: analyzeSession_transcript_def Let_def)

lemma two_errors:
  fixes a d q :: rat
  assumes "\<bar>d - a * 100\<bar> \<le> e1" and "\<bar>a - q\<bar> \<le> e2"
  shows "\<bar>d - 100 * q\<bar> \<le> e1 + 100 * e2"
  using assms by linarith

text \<open>The product \<open>(u / n) * 100\<close> of the code is within \<open>200 / 2^53\<close> of the exact
  percentage.\<close>

lemma talk_error:
  assumes "u \<le> n" "0 < n"
  shows "\<bar>fmul (fdiv (of_nat u) (of_nat n)) 100 - 100 * (of_nat u / of_nat n)\<bar> \<le> 200 / 2 ^ 53"
proof -
  define a where "a = fdiv (of_nat u) (of_nat n)"
  have ea: "\<bar>a - of_nat u / of_nat n\<bar> \<le> 1 / 2 ^ 53"
    unfolding a_def by (rule fdiv_unit_error [OF assms])
  have u: "0 \<le> a" "a \<le> 1" unfolding a_def by (rule fdiv_unit [OF assms])+
  have r100: "round64 100 = 100" by (rule round64_consts)
  have ed: "\<bar>fmul a 100 - a * 100\<bar> \<le> 100 / 2 ^ 53"
    using fmul_unit(3) [OF u _ r100] by simp
  have "\<bar>fmul a 100 - 100 * (of_nat u / of_nat n)\<bar> \<le> 100 / 2 ^ 53 + 100 * (1 / 2 ^ 53)"
    by (rule two_errors [OF ed ea])
  also have "\<dots> = 200 / 2 ^ 53" by simp
  finally show ?thesis by (simp only: a_def)
qed

lemma estimatedTalkTime_of_near_spec:
  assumes "u \<le> n" "0 < n"
  shows "\<bar>estimatedTalkTime_of u n - spec_talkTimeRatio u n\<bar> \<le> 1"
proof -
  define d where "d = fmul (fdiv (of_nat u) (of_nat n)) 100"
  define y :: rat where "y = 100 * (of_nat u / of_nat n)"
  have "(200::rat) / 2 ^ 53 \<le> 1" by simp
  with talk_error [OF assms] have "\<bar>d - y\<bar> \<le> 1" unfolding d_def y_def by linarith
  then have "d \<le> y + 1" "y \<le> d + 1" by linarith+
  note n = Math_round_near [OF this(1)] Math_round_near [OF this(2)]
  have "estimatedTalkTime_of u n = Math_round d"
    using assms(2) by (simp add: estimatedTalkTime_of_def d_def)
  moreover have "spec_talkTimeRatio u n = Math_round y"
    by (simp add: spec_talkTimeRatio_def y_def)
  ultimately show ?thesis using n by linarith
qed

lemma two_of_four: "estimatedTalkTime_of 2 4 = 50"
  by code_simp

lemma forty_turns_example:
  "analyzeSession None
     (replicate 23 (Obj \<lparr>speaker = ''user'', message = Some ''ok''\<rparr>) @
      replicate 17 (Obj \<lparr>speaker = ''ai'', message = Some ''ok''\<rparr>)) =
   Inr \<lparr>talkTimeRatio = 57, fillerWordCount = 0, confidenceScore = 100,
        wordCount = 23, averageSentenceLength = 23, conversationLength = 40,
        discovery_score = 1, product_knowledge_score = 1,
        objection_handling_score = 1, business_value_score = 1,
        overall_effectiveness_score = 1, google_ads_concepts_used = Some [],
        discovery_questions_count = Some 0,
        objection_handling_count = Some 0,
        business_value_mentions = Some 0\<rparr>"
  by code_simp

lemma hello_example:
  "analyzeSession (Some ''hello'') [] =
     Inr \<lparr>talkTimeRatio = 50, fillerWordCount = 0, confidenceScore = 100,
          wordCount = 1, averageSentenceLength = 1, conversationLength = 0,
          discovery_score = 1, product_knowledge_score = 1,
          objection_handling_score = 1, business_value_score = 1,
          overall_effectiveness_score = 1, google_ads_concepts_used = Some [],
          discovery_questions_count = Some 0,
          objection_handling_count = Some 0,
          business_value_mentions = Some 0\<rparr>"
  "Math_round (estimatedTalkTime_words 1) = 20"
  "t_talkTimeRatio (analyzeSession_transcript (Some ''hello'')) = 20"
  "spec_talkTimeRatio 23 40 = 58"
  by code_simp+

text \<open>
  C4, counterexample. With the one-word transcript \<open>hello\<close> and an empty history,
  \<open>analyzeSession\<close> returns the talk-time ratio 50, whereas the estimate from the word count,
  clamped to 20..80, is 20 (which is what the transcript-only variant returns). With 23
  trainee turns among 40 turns it returns 57, whereas \<open>round(100 * 23 / 40)\<close> is 58.
\<close>

theorem talk_time_estimate_counterexample:
  "analyzeSession (Some ''hello'') [] =
     Inr \<lparr>talkTimeRatio = 50, fillerWordCount = 0, confidenceScore = 100,
          wordCount = 1, averageSentenceLength = 1, conversationLength = 0,
          discovery_score = 1, product_knowledge_score = 1,
          objection_handling_score = 1, business_value_score = 1,
          overall_effectiveness_score = 1, google_ads_concepts_used = Some [],
          discovery_questions_count = Some 0,
          objection_handling_count = Some 0,
          business_value_mentions = Some 0\<rparr> \<and>
   Math_round (estimatedTalkTime_words 1) = 20 \<and>
   t_talkTimeRatio (analyzeSession_transcript (Some ''hello'')) = 20 \<and>
   analyzeSession None
     (replicate 23 (Obj \<lparr>speaker = ''user'', message = Some ''ok''\<rparr>) @
      replicate 17 (Obj \<lparr>speaker = ''ai'', message = Some ''ok''\<rparr>)) =
     Inr \<lparr>talkTimeRatio = 57, fillerWordCount = 0, confidenceScore = 100,
          wordCount = 23, averageSentenceLength = 23, conversationLength = 40,
          discovery_score = 1, product_knowledge_score = 1,
          objection_handling_score = 1, business_value_score = 1,
          overall_effectiveness_score = 1, google_ads_concepts_used = Some [],
          discovery_questions_count = Some 0,
          objection_handling_count = Some 0,
          business_value_mentions = Some 0\<rparr> \<and>
   spec_talkTimeRatio 23 40 = 58"
  by (simp only: hello_example forty_turns_example simp_thms)

text \<open>
  C4, amended. With a non-empty history the talk-time ratio of the returned record is
  \<open>Math.round\<close> of \<open>(trainee turns / all turns) * 100\<close> computed on doubles; it differs by at
  most 1 from \<open>round(100 * trainee turns / all turns)\<close> and is 50 for four turns alternating
  trainee and counterpart. With an empty history and a non-empty transcript
  \<open>analyzeSession\<close> returns the constant 50. The estimate from the word count, clamped to
  20..80, is the talk-time ratio of the transcript-only variant.
\<close>

theorem talk_time_ratio:
  "(h \<noteq> [] \<and> analyzeSession t h = Inr r \<longrightarrow>
      talkTimeRatio r =
        Math_round (fmul (fdiv (of_nat (length (filter is_user (objects h))))
                               (of_nat (length h))) 100) \<and>
      \<bar>talkTimeRatio r - spec_talkTimeRatio (length (filter is_user (objects h))) (length h)\<bar>
        \<le> 1) \<and>
   (is_user a \<and> \<not> is_user b \<and> is_user c \<and> \<not> is_user d \<and>
      analyzeSession t [Obj a, Obj b, Obj c, Obj d] = Inr r4 \<longrightarrow> talkTimeRatio r4 = 50) \<and>
   (s \<noteq> [] \<longrightarrow>
      (\<exists>r0. analyzeSession (Some s) [] = Inr r0 \<and> talkTimeRatio r0 = 50) \<and>
      t_talkTimeRatio (analyzeSession_transcript (Some s)) =
        Math_round (estimatedTalkTime_words (t_wordCount (analyzeSession_transcript (Some s)))) \<and>
      20 \<le> t_talkTimeRatio (analyzeSession_transcript (Some s)) \<and>
      t_talkTimeRatio (analyzeSession_transcript (Some s)) \<le> 80)"
proof (intro conjI impI)
  assume a: "h \<noteq> [] \<and> analyzeSession t h = Inr r"
  then have nd: "\<not> is_default_input t h" and r: "analyzeSession t h = Inr r"
    and pos: "0 < length h"
    by (simp_all add: is_default_input_def)
  note c = analyzeSession_computed(3) [OF r nd]
  from c pos
  show "talkTimeRatio r =
        Math_round (fmul (fdiv (of_nat (length (filter is_user (objects h))))
                               (of_nat (length h))) 100)"
    by (simp add: estimatedTalkTime_of_def)
  have le: "length (filter is_user (objects h)) \<le> length h"
    by (rule length_user_le [OF analyzeSession_Inr(2) [OF r nd]])
  from estimatedTalkTime_of_near_spec [OF le pos] c
  show "\<bar>talkTimeRatio r - spec_talkTimeRatio (length (filter is_user (objects h))) (length h)\<bar>
        \<le> 1"
    by simp
next
  assume a: "is_user a \<and> \<not> is_user b \<and> is_user c \<and> \<not> is_user d \<and>
      analyzeSession t [Obj a, Obj b, Obj c, Obj d] = Inr r4"
  have nd: "\<not> is_default_input t [Obj a, Obj b, Obj c, Obj d]"
    by (simp add: is_default_input_def)
  from a have r4: "analyzeSession t [Obj a, Obj b, Obj c, Obj d] = Inr r4" by simp
  have u: "length (filter is_user (objects [Obj a, Obj b, Obj c, Obj d])) = 2"
    using a by simp
  have n: "length [Obj a, Obj b, Obj c, Obj d] = 4" by simp
  show "talkTimeRatio r4 = 50"
    by (simp only: analyzeSession_computed(3) [OF r4 nd] u n two_of_four)
next
  assume "s \<noteq> []"
  then show "\<exists>r0. analyzeSession (Some s) [] = Inr r0 \<and> talkTimeRatio r0 = 50"
    by (rule analyzeSession_nonempty_transcript)
next
  assume s: "s \<noteq> []"
  show "t_talkTimeRatio (analyzeSession_transcript (Some s)) =
        Math_round (estimatedTalkTime_words (t_wordCount (analyzeSession_transcript (Some s))))"
    by (rule analyzeSession_transcript_talk [OF s])
  show "20 \<le> t_talkTimeRatio (analyzeSession_transcript (Some s))"
    using estimatedTalkTime_words_bounds by (simp add: analyzeSession_transcript_talk [OF s])
  show "t_talkTimeRatio (analyzeSession_transcript (Some s)) \<le> 80"
    using estimatedTalkTime_words_bounds by (simp add: analyzeSession_transcript_talk [OF s])
qed

lemma alternating_example:
  "analyzeSession None
     [Obj \<lparr>speaker = ''user'', message = Some ''Hi''\<rparr>,
      Obj \<lparr>speaker = ''ai'', message = Some ''Yes''\<rparr>,
      Obj \<lparr>speaker = ''user'', message = Some ''Ok''\<rparr>,
      Obj \<lparr>speaker = ''ai'', message = Some ''Bye''\<rparr>] =
   Inr \<lparr>talkTimeRatio = 50, fillerWordCount = 0, confidenceScore = 100,
        wordCount = 2, averageSentenceLength = 2, conversationLength = 4,
        discovery_score = 1, product_knowledge_score = 1,
        objection_handling_score = 1, business_value_score = 1,
        overall_effectiveness_score = 1, google_ads_concepts_used = Some [],
        discovery_questions_count = Some 0,
        objection_handling_count = Some 0,
        business_value_mentions = Some 0\<rparr>"
  by code_simp

theorem talk_time_ratio_witness:
  "[Obj \<lparr>speaker = ''user'', message = Some ''Hi''\<rparr>,
    Obj \<lparr>speaker = ''ai'', message = Some ''Yes''\<rparr>,
    Obj \<lparr>speaker = ''user'', message = Some ''Ok''\<rparr>,
    Obj \<lparr>speaker = ''ai'', message = Some ''Bye''\<rparr>] \<noteq> [] \<and>
   is_user \<lparr>speaker = ''user'', message = Some ''Hi''\<rparr> \<and>
   \<not> is_user \<lparr>speaker = ''ai'', message = Some ''Yes''\<rparr> \<and>
   is_user \<lparr>speaker = ''user'', message = Some ''Ok''\<rparr> \<and>
   \<not> is_user \<lparr>speaker = ''ai'', message = Some ''Bye''\<rparr> \<and>
   analyzeSession None
     [Obj \<lparr>speaker = ''user'', message = Some ''Hi''\<rparr>,
      Obj \<lparr>speaker = ''ai'', message = Some ''Yes''\<rparr>,
      Obj \<lparr>speaker = ''user'', message = Some ''Ok''\<rparr>,
      Obj \<lparr>speaker = ''ai'', message = Some ''Bye''\<rparr>] =
   Inr \<lparr>talkTimeRatio = 50, fillerWordCount = 0, confidenceScore = 100,
        wordCount = 2, averageSentenceLength = 2, conversationLength = 4,
        discovery_score = 1, product_knowledge_score = 1,
        objection_handling_score = 1, business_value_score = 1,
        overall_effectiveness_score = 1, google_ads_concepts_used = Some [],
        discovery_questions_count = Some 0,
        objection_handling_count = Some 0,
        business_value_mentions = Some 0\<rparr> \<and>
   ''hello'' \<noteq> [] \<and>
   (\<exists>r0. analyzeSession (Some ''hello'') [] = Inr r0 \<and> talkTimeRatio r0 = 50) \<and>
   20 \<le> t_talkTimeRatio (analyzeSession_transcript (Some ''hello'')) \<and>
   t_talkTimeRatio (analyzeSession_transcript (Some ''hello'')) \<le> 80"
proof -
  let ?a = "\<lparr>speaker = ''user'', message = Some ''Hi''\<rparr>"
  let ?b = "\<lparr>speaker = ''ai'', message = Some ''Yes''\<rparr>"
  let ?c = "\<lparr>speaker = ''user'', message = Some ''Ok''\<rparr>"
  let ?d = "\<lparr>speaker = ''ai'', message = Some ''Bye''\<rparr>"
  let ?r = "\<lparr>talkTimeRatio = 50, fillerWordCount = 0, confidenceScore = 100,
        wordCount = 2, averageSentenceLength = 2, conversationLength = 4,
        discovery_score = 1, product_knowledge_score = 1,
        objection_handling_score = 1, business_value_score = 1,
        overall_effectiveness_score = 1, google_ads_concepts_used = Some [],
        discovery_questions_count = Some 0,
        objection_handling_count = Some 0,
        business_value_mentions = Some 0\<rparr>"
  have u: "is_user ?a" "\<not> is_user ?b" "is_user ?c" "\<not> is_user ?d"
    by (simp_all add: is_user_def)
  have s: "''hello'' \<noteq> []" by simp
  note w = talk_time_ratio
    [of "[Obj ?a, Obj ?b, Obj ?c, Obj ?d]" None ?r ?a ?b ?c ?d ?r "''hello''"]
  from w s have
    "(\<exists>r0. analyzeSession (Some ''hello'') [] = Inr r0 \<and> talkTimeRatio r0 = 50) \<and>
     20 \<le> t_talkTimeRatio (analyzeSession_transcript (Some ''hello'')) \<and>
     t_talkTimeRatio (analyzeSession_transcript (Some ''hello'')) \<le> 80"
    by blast
  with u s alternating_example show ?thesis by blast
qed

section \<open>Discovery questions\<close>

lemma is_discovery_question_keywords:
  "is_discovery_question m \<longleftrightarrow>
     str_includes m ''?'' \<and> list_ex (\<lambda>k. str_includes (toLowerCase m) k) discovery_keywords"
  by (simp add: is_discovery_question_def discovery_keywords_def)

lemma is_discovery_question_ads_keywords:
  "is_discovery_question_ads m \<longleftrightarrow>
     str_includes m ''?'' \<and> list_ex (\<lambda>k. str_includes (toLowerCase m) k) discovery_keywords_ads"
  by (simp add: is_discovery_question_ads_def discovery_keywords_ads_def)

lemma count_user_messages:
  "length (filter P (map message_text (filter is_user ms))) =
   length (filter (\<lambda>msg. is_user msg \<and> P (message_text msg)) ms)"
  by (induction ms) simp_all

lemma discovery_score_of_1: "discovery_score_of 1 = 2"
  by code_simp

lemma budget_question: "is_discovery_question ''What is your current budget for this?''"
  by code_simp

text \<open>
  C5, counterexample. The trainee turn \<open>Is that a success?\<close> has a question mark and the
  keyword \<open>success\<close> of the specification's set, yet \<open>analyzeSession\<close> counts no discovery
  question.
\<close>

theorem discovery_keywords_counterexample:
  "analyzeSession None [Obj \<lparr>speaker = ''user'', message = Some ''Is that a success?''\<rparr>] =
     Inr \<lparr>talkTimeRatio = 100, fillerWordCount = 0, confidenceScore = 100,
          wordCount = 4, averageSentenceLength = 4, conversationLength = 1,
          discovery_score = 1, product_knowledge_score = 1,
          objection_handling_score = 1, business_value_score = 1,
          overall_effectiveness_score = 1, google_ads_concepts_used = Some [],
          discovery_questions_count = Some 0,
          objection_handling_count = Some 0,
          business_value_mentions = Some 0\<rparr> \<and>
   length (filter spec_is_discovery_question [''Is that a success?'']) = 1"
  by code_simp

text \<open>
  C5, amended. When \<open>analyzeSession\<close> returns for a non-empty history, its
  discovery-question count is the number of trainee turns whose message contains \<open>?\<close>
  and, case-insensitively, one of the eleven keywords goal, currently, budget, target,
  competition, challenge, how, what, why, when, where. The keywords measure and success
  belong to the test of \<open>analyzeGoogleAdsPerformance\<close>, which has the first six and these
  two. A history whose single trainee turn is \<open>What is your current budget for this?\<close>
  has the count 1 and a discovery score of at least 2.
\<close>

theorem discovery_question_count:
  "(h \<noteq> [] \<and> analyzeSession t h = Inr r \<longrightarrow>
      discovery_questions_count r =
        Some (length (filter (\<lambda>msg. is_user msg \<and> str_includes (message_text msg) ''?'' \<and>
                 list_ex (\<lambda>k. str_includes (toLowerCase (message_text msg)) k) discovery_keywords)
               (objects h)))) \<and>
   (is_discovery_question_ads m \<longleftrightarrow>
      str_includes m ''?'' \<and>
      list_ex (\<lambda>k. str_includes (toLowerCase m) k) discovery_keywords_ads) \<and>
   (analyzeSession t
      [Obj \<lparr>speaker = ''user'', message = Some ''What is your current budget for this?''\<rparr>] = Inr r1
    \<longrightarrow> discovery_questions_count r1 = Some 1 \<and> 2 \<le> discovery_score r1)"
proof (intro conjI impI)
  assume a: "h \<noteq> [] \<and> analyzeSession t h = Inr r"
  then have nd: "\<not> is_default_input t h" by (simp add: is_default_input_def)
  from a analyzeSession_messages(1) [OF _ nd, of r]
  show "discovery_questions_count r =
        Some (length (filter (\<lambda>msg. is_user msg \<and> str_includes (message_text msg) ''?'' \<and>
                 list_ex (\<lambda>k. str_includes (toLowerCase (message_text msg)) k) discovery_keywords)
               (objects h)))"
    by (simp add: count_user_messages is_discovery_question_keywords)
next
  show "is_discovery_question_ads m \<longleftrightarrow>
      str_includes m ''?'' \<and>
      list_ex (\<lambda>k. str_includes (toLowerCase m) k) discovery_keywords_ads"
    by (rule is_discovery_question_ads_keywords)
next
  let ?h = "[Obj \<lparr>speaker = ''user'', message = Some ''What is your current budget for this?''\<rparr>]"
  assume a: "analyzeSession t ?h = Inr r1"
  have nd: "\<not> is_default_input t ?h" by (simp add: is_default_input_def)
  have n: "length (filter is_discovery_question
                 (map message_text (filter is_user (objects ?h)))) = 1"
    using budget_question by (simp add: is_user_def message_text_def)
  with analyzeSession_messages [OF a nd] discovery_score_of_1
  show "discovery_questions_count r1 = Some 1" and "2 \<le> discovery_score r1" by simp_all
qed

lemma budget_example:
  "analyzeSession None
     [Obj \<lparr>speaker = ''user'', message = Some ''What is your current budget for this?''\<rparr>] =
   Inr \<lparr>talkTimeRatio = 100, fillerWordCount = 0, confidenceScore = 100,
        wordCount = 7, averageSentenceLength = 7, conversationLength = 1,
        discovery_score = 2, product_knowledge_score = 2,
        objection_handling_score = 1, business_value_score = 1,
        overall_effectiveness_score = 2,
        google_ads_concepts_used = Some [''budget''],
        discovery_questions_count = Some 1,
        objection_handling_count = Some 0,
        business_value_mentions = Some 0\<rparr>"
  by code_simp

theorem discovery_question_count_witness:
  "[Obj \<lparr>speaker = ''user'', message = Some ''What is your current budget for this?''\<rparr>] \<noteq> [] \<and>
   analyzeSession None
     [Obj \<lparr>speaker = ''user'', message = Some ''What is your current budget for this?''\<rparr>] =
   Inr \<lparr>talkTimeRatio = 100, fillerWordCount = 0, confidenceScore = 100,
        wordCount = 7, averageSentenceLength = 7, conversationLength = 1,
        discovery_score = 2, product_knowledge_score = 2,
        objection_handling_score = 1, business_value_score = 1,
        overall_effectiveness_score = 2,
        google_ads_concepts_used = Some [''budget''],
        discovery_questions_count = Some 1,
        objection_handling_count = Some 0,
        business_value_mentions = Some 0\<rparr> \<and>
   length (filter (\<lambda>msg. is_user msg \<and> str_includes (message_text msg) ''?'' \<and>
             list_ex (\<lambda>k. str_includes (toLowerCase (message_text msg)) k) discovery_keywords)
           (objects
             [Obj \<lparr>speaker = ''user'', message = Some ''What is your current budget for this?''\<rparr>]))
     = 1"
proof -
  let ?h = "[Obj \<lparr>speaker = ''user'', message = Some ''What is your current budget for this?''\<rparr>]"
  let ?r = "\<lparr>talkTimeRatio = 100, fillerWordCount = 0, confidenceScore = 100,
        wordCount = 7, averageSentenceLength = 7, conversationLength = 1,
        discovery_score = 2, product_knowledge_score = 2,
        objection_handling_score = 1, business_value_score = 1,
        overall_effectiveness_score = 2,
        google_ads_concepts_used = Some [''budget''],
        discovery_questions_count = Some 1,
        objection_handling_count = Some 0,
        business_value_mentions = Some 0\<rparr>"
  have ne: "?h \<noteq> []" by simp
  note w = discovery_question_count [of ?h None ?r "[]" ?r, THEN conjunct1, rule_format]
  have "discovery_questions_count ?r =
        Some (length (filter (\<lambda>msg. is_user msg \<and> str_includes (message_text msg) ''?'' \<and>
                 list_ex (\<lambda>k. str_includes (toLowerCase (message_text msg)) k) discovery_keywords)
               (objects ?h)))"
    by (rule w) (simp add: budget_example)
  with ne budget_example show ?thesis by simp
qed

section \<open>Idempotence of redactPII\<close>

declare js_replace.simps [simp del]

lemma lastc_append: "lastc p (u @ v) = lastc (lastc p u) v"
  by (induction u arbitrary: p) simp_all

lemma many_results:
  "(q, t) \<in> set (many c n p s) \<Longrightarrow>
     \<exists>w. s = w @ t \<and> q = lastc p w \<and> list_all c w \<and> n \<le> length w"
proof (induction s arbitrary: n p)
  case Nil
  then show ?case by (simp split: if_splits)
next
  case (Cons x xs)
  from Cons.prems consider
      (more) "c x" "(q, t) \<in> set (many c (n - 1) (Some x) xs)"
    | (stop) "n = 0" "(q, t) = (p, x # xs)"
    by (auto split: if_splits)
  then show ?case
  proof cases
    case more
    from Cons.IH [OF more(2)] obtain w where
      "xs = w @ t" "q = lastc (Some x) w" "list_all c w" "n - 1 \<le> length w" by blast
    with more(1) have "x # xs = (x # w) @ t \<and> q = lastc p (x # w) \<and> list_all c (x # w)
        \<and> n \<le> length (x # w)" by auto
    then show ?thesis by blast
  next
    case stop
    then have "x # xs = [] @ t \<and> q = lastc p [] \<and> list_all c [] \<and> n \<le> length ([]::string)"
      by simp
    then show ?thesis by blast
  qed
qed

lemma run_results:
  "(q, t) \<in> set (run re (p, s)) \<Longrightarrow> \<exists>w. s = w @ t \<and> q = lastc p w \<and> list_all (alpha re) w"
proof (induction re arbitrary: p s q t)
  case Eps
  then have "s = [] @ t \<and> q = lastc p [] \<and> list_all (alpha Eps) []" by simp
  then show ?case by blast
next
  case (Cls c)
  then obtain x where "s = x # t" "c x" "q = Some x"
    by (auto split: list.splits if_splits)
  then have "s = [x] @ t \<and> q = lastc p [x] \<and> list_all (alpha (Cls c)) [x]" by simp
  then show ?case by blast
next
  case Bnd
  then have "s = [] @ t \<and> q = lastc p [] \<and> list_all (alpha Bnd) []"
    by (simp split: if_splits)
  then show ?case by blast
next
  case (Seq a b)
  from Seq.prems obtain q1 t1 where
    1: "(q1, t1) \<in> set (run a (p, s))" and 2: "(q, t) \<in> set (run b (q1, t1))"
    by auto
  from Seq.IH(1) [OF 1] obtain w1 where
    w1: "s = w1 @ t1" "q1 = lastc p w1" "list_all (alpha a) w1" by blast
  from Seq.IH(2) [OF 2] obtain w2 where
    w2: "t1 = w2 @ t" "q = lastc q1 w2" "list_all (alpha b) w2" by blast
  have "list_all (alpha (Seq a b)) (w1 @ w2)"
    using w1(3) w2(3) by (auto simp: list_all_iff)
  with w1 w2 have "s = (w1 @ w2) @ t \<and> q = lastc p (w1 @ w2)
      \<and> list_all (alpha (Seq a b)) (w1 @ w2)"
    by (simp add: lastc_append)
  then show ?case by blast
next
  case (Opt a)
  from Opt.prems consider "(q, t) \<in> set (run a (p, s))" | "(q, t) = (p, s)" by auto
  then show ?case
  proof cases
    case 1
    from Opt.IH [OF 1] show ?thesis by simp
  next
    case 2
    then have "s = [] @ t \<and> q = lastc p [] \<and> list_all (alpha (Opt a)) []" by simp
    then show ?thesis by blast
  qed
next
  case (Many c n)
  then have "(q, t) \<in> set (many c n p s)" by simp
  from many_results [OF this] show ?case by auto
qed

lemma run_results_eq:
  assumes "(q, t) \<in> set (run re (p, w @ t))"
  shows "q = lastc p w" and "list_all (alpha re) w"
proof -
  from run_results [OF assms] obtain w' where
    "w @ t = w' @ t" "q = lastc p w'" "list_all (alpha re) w'" by blast
  then show "q = lastc p w" and "list_all (alpha re) w" by simp_all
qed

lemma run_needs:
  "needs F re \<Longrightarrow> (q, t) \<in> set (run re (p, w @ t)) \<Longrightarrow> \<exists>x\<in>set w. \<not> F x"
proof (induction re arbitrary: p w q t)
  case (Cls c)
  then obtain x where "w @ t = x # t" "c x"
    by (auto split: list.splits if_splits)
  then have "w = [x]" by simp
  with Cls.prems(1) \<open>c x\<close> show ?case by simp
next
  case (Seq a b)
  from Seq.prems(2) obtain q1 t1 where
    1: "(q1, t1) \<in> set (run a (p, w @ t))" and 2: "(q, t) \<in> set (run b (q1, t1))"
    by auto
  from run_results [OF 1] obtain w1 where w1: "w @ t = w1 @ t1" by blast
  from run_results [OF 2] obtain w2 where w2: "t1 = w2 @ t" by blast
  from w1 w2 have w: "w = w1 @ w2" by simp
  from Seq.prems(1) consider "needs F a" | "needs F b" by auto
  then show ?case
  proof cases
    case 1
    have "(q1, t1) \<in> set (run a (p, w1 @ t1))" using \<open>(q1, t1) \<in> set (run a (p, w @ t))\<close> w1 by simp
    from Seq.IH(1) [OF 1 this] w show ?thesis by auto
  next
    case 2
    have "(q, t) \<in> set (run b (q1, w2 @ t))" using \<open>(q, t) \<in> set (run b (q1, t1))\<close> w2 by simp
    from Seq.IH(2) [OF 2 this] w show ?thesis by auto
  qed
next
  case (Many c n)
  then have "(q, t) \<in> set (many c n p (w @ t))" by simp
  from many_results [OF this] obtain w' where
    "w @ t = w' @ t" "list_all c w'" "n \<le> length w'" by blast
  then have "list_all c w" "n \<le> length w" by simp_all
  with Many.prems(1) obtain x where "x \<in> set w" "c x"
    by (cases w) auto
  with Many.prems(1) show ?case by auto
qed simp_all

lemma run_start:
  "starts_bnd re \<Longrightarrow> r \<in> set (run re (p, s)) \<Longrightarrow> wd p \<noteq> wd (nxt s)"
proof (induction re arbitrary: p s r)
  case Bnd
  then show ?case by (simp split: if_splits)
next
  case (Seq a b)
  from Seq.prems(2) obtain r1 where "r1 \<in> set (run a (p, s))" by auto
  from Seq.IH(1) [OF _ this] Seq.prems(1) show ?case by simp
qed simp_all

lemma run_end:
  "ends_bnd re \<Longrightarrow> (q, t) \<in> set (run re st) \<Longrightarrow> wd q \<noteq> wd (nxt t)"
proof (induction re arbitrary: st q t)
  case Bnd
  then show ?case by (auto split: if_splits)
next
  case (Seq a b)
  from Seq.prems(2) obtain st1 where "(q, t) \<in> set (run b st1)" by auto
  from Seq.IH(2) [OF _ this] Seq.prems(1) show ?case by simp
qed simp_all

lemma many_zero_stop: "(p, s) \<in> set (many c 0 p s)"
  by (cases s) simp_all

lemma many_context:
  "(q, t) \<in> set (many c n p (w @ t)) \<Longrightarrow> (lastc p' w, t') \<in> set (many c n p' (w @ t'))"
proof (induction w arbitrary: n p p')
  case Nil
  from many_results [OF Nil.prems [simplified]] obtain w' where
    "t = w' @ t" "n \<le> length w'" by auto
  then have "n = 0" by simp
  then show ?case by (simp add: many_zero_stop)
next
  case (Cons x w)
  from Cons.prems consider
      (more) "c x" "(q, t) \<in> set (many c (n - 1) (Some x) (w @ t))"
    | (stop) "(q, t) = (p, x # w @ t)"
    by (auto split: if_splits)
  then show ?case
  proof cases
    case more
    from Cons.IH [OF more(2), of "Some x"] more(1) show ?thesis by simp
  next
    case stop
    then have "length t = length (x # w @ t)" by simp
    then show ?thesis by simp
  qed
qed

lemma run_context:
  "(q, t) \<in> set (run re (p, w @ t)) \<Longrightarrow> wd p' = wd p \<Longrightarrow> wd (nxt t') = wd (nxt t) \<Longrightarrow>
     (lastc p' w, t') \<in> set (run re (p', w @ t'))"
proof (induction re arbitrary: p p' w q t t')
  case Eps
  then have "w = []" by simp
  then show ?case by simp
next
  case (Cls c)
  from Cls.prems(1) obtain x where "w @ t = x # t" "c x"
    by (auto split: list.splits if_splits)
  then have "w = [x]" by simp
  with \<open>c x\<close> show ?case by simp
next
  case Bnd
  from Bnd.prems(1) have "w @ t = t" and b: "wd p \<noteq> wd (nxt t)"
    by (auto split: if_splits)
  then have "w = []" by simp
  with b Bnd.prems(2,3) show ?case by simp
next
  case (Seq a b)
  from Seq.prems(1) obtain q1 t1 where
    1: "(q1, t1) \<in> set (run a (p, w @ t))" and 2: "(q, t) \<in> set (run b (q1, t1))"
    by auto
  from run_results [OF 1] obtain w1 where w1: "w @ t = w1 @ t1" by blast
  from run_results [OF 2] obtain w2 where w2: "t1 = w2 @ t" by blast
  from w1 w2 have w: "w = w1 @ w2" by simp
  have m1: "(q1, w2 @ t) \<in> set (run a (p, w1 @ w2 @ t))" using 1 w w2 by simp
  have q1: "q1 = lastc p w1" using run_results_eq(1) [OF m1] .
  have n: "wd (nxt (w2 @ t')) = wd (nxt (w2 @ t))"
    using Seq.prems(3) by (cases w2) simp_all
  from Seq.IH(1) [OF m1 Seq.prems(2) n]
  have a: "(lastc p' w1, w2 @ t') \<in> set (run a (p', w1 @ w2 @ t'))" .
  have m2: "(q, t) \<in> set (run b (lastc p w1, w2 @ t))" using 2 w2 q1 by simp
  have p: "wd (lastc p' w1) = wd (lastc p w1)"
    using Seq.prems(2) by (cases w1 rule: rev_cases) (simp_all add: lastc_append)
  from Seq.IH(2) [OF m2 p Seq.prems(3)]
  have b: "(lastc (lastc p' w1) w2, t') \<in> set (run b (lastc p' w1, w2 @ t'))" .
  from a b show ?case by (auto simp: w lastc_append)
next
  case (Opt a)
  from Opt.prems(1) consider "(q, t) \<in> set (run a (p, w @ t))" | "(q, t) = (p, w @ t)" by auto
  then show ?case
  proof cases
    case 1
    from Opt.IH [OF 1 Opt.prems(2,3)] show ?thesis by simp
  next
    case 2
    then have "w = []" by simp
    then show ?thesis by simp
  qed
next
  case (Many c n)
  then have "(q, t) \<in> set (many c n p (w @ t))" by simp
  from many_context [OF this] show ?case by simp
qed

lemma run_nonempty_context:
  assumes "run re (p, s) \<noteq> []" and "wd p' = wd p"
  shows "run re (p', s) \<noteq> []"
proof -
  from assms(1) obtain q t where m: "(q, t) \<in> set (run re (p, s))"
    by (cases "run re (p, s)") auto
  from run_results [OF m] obtain w where w: "s = w @ t" by blast
  from run_context [OF m [unfolded w] assms(2) refl] show ?thesis
    unfolding w by auto
qed

lemma exec_None: "exec re p s = None \<longleftrightarrow> run re (p, s) = []"
  by (simp add: exec_def split: list.splits)

lemma exec_Some: "exec re p s = Some r \<Longrightarrow> r \<in> set (run re (p, s))"
  by (auto simp: exec_def split: list.splits)

lemma bounded_match:
  assumes "bounded_rx re" and "(q, t) \<in> set (run re (p, s))"
  shows "\<exists>w. s = w @ t \<and> w \<noteq> [] \<and> q = lastc p w \<and> list_all (alpha re) w"
    and "length t < length s"
    and "wd p \<noteq> wd (nxt s)"
    and "wd q \<noteq> wd (nxt t)"
proof -
  from run_results [OF assms(2)] obtain w where
    w: "s = w @ t" "q = lastc p w" "list_all (alpha re) w" by blast
  from assms(1) have "needs is_ph_char re" by (simp add: bounded_rx_def)
  from run_needs [OF this assms(2) [unfolded w(1)]] have ne: "w \<noteq> []" by auto
  with w show "\<exists>w. s = w @ t \<and> w \<noteq> [] \<and> q = lastc p w \<and> list_all (alpha re) w" by blast
  from ne w(1) show "length t < length s" by simp
  from assms(1) have "starts_bnd re" "ends_bnd re" by (simp_all add: bounded_rx_def)
  then show "wd p \<noteq> wd (nxt s)" and "wd q \<noteq> wd (nxt t)"
    using run_start [OF _ assms(2)] run_end [OF _ assms(2)] by simp_all
qed

lemma js_replace_None:
  "exec re p s = None \<Longrightarrow>
     js_replace re ph p s = (case s of [] \<Rightarrow> [] | x # xs \<Rightarrow> x # js_replace re ph (Some x) xs)"
  by (subst js_replace.simps) simp

lemma js_replace_Some:
  assumes "bounded_rx re" and "exec re p s = Some (q, t)"
  shows "js_replace re ph p s = ph @ js_replace re ph q t"
proof -
  from bounded_match(2) [OF assms(1) exec_Some [OF assms(2)]] have "length t < length s" .
  with assms(2) show ?thesis by (subst js_replace.simps) simp
qed

lemma placeholder_hd: "placeholder ph \<Longrightarrow> \<exists>rest. ph = CHR ''['' # rest"
  by (cases ph) (simp_all add: placeholder_def)

text \<open>A prefix of the output without an opening bracket was copied from the input.\<close>

lemma js_replace_copied:
  assumes "bounded_rx re" and "placeholder ph"
  shows "js_replace re ph p s = w @ r \<Longrightarrow> CHR ''['' \<notin> set w \<Longrightarrow>
           \<exists>s'. s = w @ s' \<and> r = js_replace re ph (lastc p w) s'"
proof (induction w arbitrary: p s)
  case Nil
  then show ?case by simp
next
  case (Cons x w)
  note IH = Cons.IH and prems = Cons.prems
  show ?case
  proof (cases "exec re p s")
    case None
    show ?thesis
    proof (cases s)
      case Nil
      with None prems(1) show ?thesis by (simp add: js_replace_None)
    next
      case (Cons y ys)
      with None prems(1) have y: "y = x" and "js_replace re ph (Some y) ys = w @ r"
        by (auto simp: js_replace_None)
      from IH [OF this(2)] prems(2) obtain s' where
        "ys = w @ s'" "r = js_replace re ph (lastc (Some y) w) s'" by auto
      with y Cons have "s = (x # w) @ s' \<and> r = js_replace re ph (lastc p (x # w)) s'"
        by simp
      then show ?thesis by blast
    qed
  next
    case (Some m)
    obtain q t where "m = (q, t)" by (cases m)
    with Some js_replace_Some [OF assms(1), of p s q t ph]
    have "js_replace re ph p s = ph @ js_replace re ph q t" by simp
    with placeholder_hd [OF assms(2)] prems show ?thesis by auto
  qed
qed

lemma nxt_js_replace:
  assumes "bounded_rx re" and "placeholder ph"
  shows "nxt (js_replace re ph p s) = (if exec re p s = None then nxt s else Some CHR ''['')"
proof (cases "exec re p s")
  case None
  then show ?thesis by (cases s) (simp_all add: js_replace_None)
next
  case (Some m)
  obtain q t where "m = (q, t)" by (cases m)
  with Some js_replace_Some [OF assms(1), of p s q t ph]
  have "js_replace re ph p s = ph @ js_replace re ph q t" by simp
  with placeholder_hd [OF assms(2)] Some show ?thesis by auto
qed

lemma not_word_bracket:
  "\<not> wd (Some CHR ''['')" "\<not> wd (Some CHR '']'')"
  "\<not> is_word_char CHR ''[''" "\<not> is_word_char CHR '']''"
  by (simp_all add: is_word_char_def is_upper_def is_lower_def is_digit_def code_unit_def)

text \<open>Replacing the matches of \<open>b\<close> creates no match of \<open>a\<close> at a position that is copied.\<close>

lemma no_new_match:
  assumes a: "bounded_rx a" and b: "bounded_rx b" and ph: "placeholder ph"
    and m: "run a (p, js_replace b ph p s) \<noteq> []"
  shows "run a (p, s) \<noteq> []"
proof -
  from m obtain q r where qr: "(q, r) \<in> set (run a (p, js_replace b ph p s))"
    by (cases "run a (p, js_replace b ph p s)") auto
  from bounded_match(1) [OF a qr] obtain w where
    w: "js_replace b ph p s = w @ r" "q = lastc p w" "list_all (alpha a) w" by blast
  from a have "\<not> alpha a CHR ''[''" by (simp add: bounded_rx_def)
  with w(3) have nb: "CHR ''['' \<notin> set w" by (auto simp: list_all_iff)
  from js_replace_copied [OF b ph w(1) nb] obtain s' where
    s': "s = w @ s'" "r = js_replace b ph (lastc p w) s'" by blast
  have "wd (nxt s') = wd (nxt r)"
  proof (cases "exec b (lastc p w) s'")
    case None
    then show ?thesis using nxt_js_replace [OF b ph, of "lastc p w" s'] s'(2) by simp
  next
    case (Some k)
    then have "nxt r = Some CHR ''[''"
      using nxt_js_replace [OF b ph, of "lastc p w" s'] s'(2) by simp
    then have r: "\<not> wd (nxt r)" by (simp add: not_word_bracket)
    from bounded_match(4) [OF a qr] r have "wd q" by simp
    obtain q' t' where "k = (q', t')" by (cases k)
    with Some have "(q', t') \<in> set (run b (lastc p w, s'))" by (simp add: exec_Some)
    from bounded_match(3) [OF b this] \<open>wd q\<close> w(2) have "\<not> wd (nxt s')" by simp
    with r show ?thesis by simp
  qed
  from run_context [OF qr [unfolded w(1)] refl this]
  have "(lastc p w, s') \<in> set (run a (p, w @ s'))" .
  with s'(1) show ?thesis by auto
qed

text \<open>No match of \<open>a\<close> starts inside a placeholder.\<close>

lemma no_match_in_placeholder:
  assumes a: "bounded_rx a" and ph: "placeholder ph" and uv: "ph = u @ v" and v: "v \<noteq> []"
  shows "run a (p, v @ rest) = []"
proof (rule ccontr)
  assume "run a (p, v @ rest) \<noteq> []"
  then obtain q t where qt: "(q, t) \<in> set (run a (p, v @ rest))"
    by (cases "run a (p, v @ rest)") auto
  from run_results [OF qt] obtain w where
    w: "v @ rest = w @ t" "list_all (alpha a) w" by blast
  from a have "needs is_ph_char a" "\<not> alpha a CHR '']''" by (simp_all add: bounded_rx_def)
  from run_needs [OF this(1) qt [unfolded w(1)]] obtain x where
    x: "x \<in> set w" "\<not> is_ph_char x" by blast
  from ph uv v have lv: "last v = CHR '']''" and av: "list_all is_ph_char v"
    by (simp_all add: placeholder_def)
  from w(1) consider k where "v = w @ k" | k where "w = v @ k"
    by (auto simp: append_eq_append_conv2)
  then show False
  proof cases
    case 1
    with av x show False by (auto simp: list_all_iff)
  next
    case 2
    with v lv have "CHR '']'' \<in> set w" by (metis last_in_set Un_iff set_append)
    with w(2) \<open>\<not> alpha a CHR '']''\<close> show False by (auto simp: list_all_iff)
  qed
qed

lemma clean_append:
  "(\<And>u v. ph = u @ v \<Longrightarrow> v \<noteq> [] \<Longrightarrow> run a (lastc p u, v @ rest) = []) \<Longrightarrow>
     clean a (lastc p ph) rest \<Longrightarrow> clean a p (ph @ rest)"
proof (induction ph arbitrary: p)
  case Nil
  then show ?case by simp
next
  case (Cons x ph)
  have 1: "run a (p, (x # ph) @ rest) = []"
    using Cons.prems(1) [of "[]" "x # ph"] by simp
  have 2: "clean a (Some x) (ph @ rest)"
  proof (rule Cons.IH)
    fix u v assume "ph = u @ v" "v \<noteq> []"
    then show "run a (lastc (Some x) u, v @ rest) = []"
      using Cons.prems(1) [of "x # u" v] by simp
  next
    from Cons.prems(2) show "clean a (lastc (Some x) ph) rest" by simp
  qed
  from 1 2 show ?case by simp
qed

lemma covered_suffix: "covered a b p (w @ t) \<Longrightarrow> covered a b (lastc p w) t"
  by (induction w arbitrary: p) simp_all

lemma covered_here: "covered a b p s \<Longrightarrow> run a (p, s) = [] \<or> run b (p, s) \<noteq> []"
  by (cases s) simp_all

lemma clean_here: "clean a p s \<Longrightarrow> run a (p, s) = []"
  by (cases s) simp_all

lemma clean_change_prev:
  "clean a q s \<Longrightarrow> run a (p, s) = [] \<Longrightarrow> clean a p s"
  by (cases s) simp_all

lemma lastc_placeholder: "placeholder ph \<Longrightarrow> lastc p ph = Some CHR '']''"
proof -
  have "ph \<noteq> [] \<Longrightarrow> lastc p ph = Some (last ph)" for p
    by (induction ph arbitrary: p) auto
  then show "placeholder ph \<Longrightarrow> lastc p ph = Some CHR '']''"
    by (simp add: placeholder_def)
qed

text \<open>After the matches of \<open>b\<close> are replaced, \<open>a\<close> matches nowhere, provided that \<open>a\<close>
  matched only where \<open>b\<close> did.\<close>

lemma clean_js_replace:
  assumes a: "bounded_rx a" and b: "bounded_rx b" and ph: "placeholder ph"
  shows "covered a b p s \<Longrightarrow> clean a p (js_replace b ph p s)"
proof (induction s arbitrary: p rule: length_induct)
  case (1 s)
  show ?case
  proof (cases "exec b p s")
    case None
    then have nb: "run b (p, s) = []" by (simp add: exec_None)
    with covered_here [OF "1.prems"] have na: "run a (p, s) = []" by simp
    have here: "run a (p, js_replace b ph p s) = []"
      using no_new_match [OF a b ph, of p s] na by blast
    show ?thesis
    proof (cases s)
      case Nil
      with None here show ?thesis by (simp add: js_replace_None)
    next
      case (Cons x xs)
      from "1.prems" Cons have "covered a b (Some x) xs" by simp
      with "1.IH" Cons have "clean a (Some x) (js_replace b ph (Some x) xs)" by simp
      with here None Cons show ?thesis by (simp add: js_replace_None)
    qed
  next
    case (Some m)
    obtain q t where m: "m = (q, t)" by (cases m)
    with Some have qt: "(q, t) \<in> set (run b (p, s))" by (simp add: exec_Some)
    from bounded_match [OF b qt] obtain w where
      w: "s = w @ t" "w \<noteq> []" "q = lastc p w" and len: "length t < length s"
      and qe: "wd q \<noteq> wd (nxt t)" by blast
    have out: "js_replace b ph p s = ph @ js_replace b ph q t"
      using js_replace_Some [OF b] Some m by simp
    let ?rest = "js_replace b ph q t"
    from "1.prems" w(1,3) have "covered a b q t" by (simp add: covered_suffix)
    with "1.IH" len have cq: "clean a q ?rest" by simp
    have "run a (Some CHR '']'', ?rest) = []"
    proof (rule ccontr)
      assume ne: "run a (Some CHR '']'', ?rest) \<noteq> []"
      then obtain r where "r \<in> set (run a (Some CHR '']'', ?rest))"
        by (cases "run a (Some CHR '']'', ?rest)") auto
      from run_start [OF _ this] a have wr: "wd (nxt ?rest)"
        by (simp add: bounded_rx_def not_word_bracket)
      with nxt_js_replace [OF b ph, of q t] have "nxt ?rest = nxt t"
        by (auto simp: not_word_bracket split: if_splits)
      with wr qe have "\<not> wd q" by simp
      then have "wd q = wd (Some CHR '']'')" by (simp add: not_word_bracket)
      from run_nonempty_context [OF ne this] clean_here [OF cq] show False by simp
    qed
    with cq have "clean a (Some CHR '']'') ?rest" by (rule clean_change_prev)
    then have "clean a (lastc p ph) ?rest" by (simp add: lastc_placeholder [OF ph])
    moreover have "run a (lastc p u, v @ ?rest) = []" if "ph = u @ v" "v \<noteq> []" for u v
      using no_match_in_placeholder [OF a ph that] .
    ultimately have "clean a p (ph @ ?rest)" by (intro clean_append) 
    with out show ?thesis by simp
  qed
qed

lemma covered_refl: "covered a a p s"
  by (induction s arbitrary: p) simp_all

lemma clean_covered: "clean a p s \<Longrightarrow> covered a b p s"
  by (induction s arbitrary: p) simp_all

lemma js_replace_clean: "clean re p s \<Longrightarrow> js_replace re ph p s = s"
proof (induction s arbitrary: p)
  case Nil
  then have "exec re p [] = None" by (simp add: exec_None)
  then show ?case by (simp add: js_replace_None)
next
  case (Cons x xs)
  then have "exec re p (x # xs) = None" by (simp add: exec_None)
  with Cons show ?case by (simp add: js_replace_None)
qed

lemma placeholder_clean:
  assumes "bounded_rx a" and "placeholder ph"
  shows "clean a p ph"
proof -
  have e: "run a (q, []) = []" for q
  proof (rule ccontr)
    assume "run a (q, []) \<noteq> []"
    then obtain r t where "(r, t) \<in> set (run a (q, []))"
      by (cases "run a (q, [])") auto
    from bounded_match(2) [OF assms(1) this] show False by simp
  qed
  have "clean a p (ph @ [])"
  proof (rule clean_append)
    fix u v assume "ph = u @ v" "v \<noteq> []"
    then show "run a (lastc p u, v @ []) = []"
      by (rule no_match_in_placeholder [OF assms])
  next
    show "clean a (lastc p ph) []" by (simp add: e)
  qed
  then show ?thesis by simp
qed

lemma stage_self:
  "bounded_rx b \<Longrightarrow> placeholder ph \<Longrightarrow> clean b None (js_replace b ph None s)"
  by (rule clean_js_replace [OF _ _ _ covered_refl])

lemma stage_keeps:
  "bounded_rx a \<Longrightarrow> bounded_rx b \<Longrightarrow> placeholder ph \<Longrightarrow> clean a None s \<Longrightarrow>
     clean a None (js_replace b ph None s)"
  by (rule clean_js_replace [OF _ _ _ clean_covered])

lemma char_codes:
  "code_unit CHR ''['' = 91" "code_unit CHR '']'' = 93" "code_unit CHR ''_'' = 95" "code_unit CHR ''@'' = 64"
  "code_unit CHR '' '' = 32" "code_unit CHR ''.'' = 46" "code_unit CHR ''-'' = 45" "code_unit CHR ''%'' = 37"
  "code_unit CHR ''+'' = 43" "code_unit CHR ''|'' = 124" "code_unit CHR ''1'' = 49" "code_unit CHR ''('' = 40"
  "code_unit CHR '')'' = 41"
  by (simp_all add: code_unit_def)

lemma digit_not_ph: "is_digit x \<Longrightarrow> \<not> is_ph_char x"
  by (auto simp: is_digit_def is_ph_char_def is_upper_def char_codes)

lemma bounded_email: "bounded_rx email_rx"
  by (simp add: bounded_rx_def email_rx_def lit_def is_ph_char_def is_alnum_def is_upper_def
        is_lower_def is_digit_def char_codes)

lemma bounded_phone: "bounded_rx phone_rx"
  by (simp add: bounded_rx_def phone_rx_def phone_sep_def lit_def digit_def digit_not_ph
        is_digit_def is_space_def char_codes)

lemma bounded_ssn: "bounded_rx ssn_rx"
  by (simp add: bounded_rx_def ssn_rx_def lit_def digit_def digit_not_ph is_digit_def char_codes)

lemma bounded_card: "bounded_rx card_rx"
  by (simp add: bounded_rx_def card_rx_def card_sep_def lit_def digit_def digit_not_ph
        is_digit_def is_space_def char_codes)

lemma bounded_name: "bounded_rx name_rx"
  by (simp add: bounded_rx_def name_rx_def lit_def is_ph_char_def is_upper_def is_lower_def
        char_codes)

lemma placeholders:
  "placeholder ''[EMAIL_REDACTED]''" "placeholder ''[PHONE_REDACTED]''"
  "placeholder ''[SSN_REDACTED]''" "placeholder ''[CARD_REDACTED]''"
  "placeholder ''[NAME_REDACTED]''"
  by (simp_all add: placeholder_def is_ph_char_def is_upper_def code_unit_def)

lemma redact_string_clean:
  "clean email_rx None (redact_string s)"
  "clean phone_rx None (redact_string s)"
  "clean ssn_rx None (redact_string s)"
  "clean card_rx None (redact_string s)"
  "clean name_rx None (redact_string s)"
  unfolding redact_string_def Let_def
  by (intro stage_keeps stage_self bounded_email bounded_phone bounded_ssn bounded_card
        bounded_name placeholders)+

lemma redact_string_idempotent: "redact_string (redact_string s) = redact_string s"
proof -
  let ?o = "redact_string s"
  have "redact_string ?o = ?o"
    unfolding redact_string_def [of ?o] Let_def
    by (simp add: js_replace_clean redact_string_clean)
  then show ?thesis .
qed

text \<open>
  C8. \<open>redactPII\<close> is idempotent: redacting a redacted text changes nothing. None of the
  five patterns matches anywhere in any of the five placeholders.
\<close>

theorem redactPII_idempotent:
  "redactPII (redactPII input) = redactPII input \<and>
   list_all (\<lambda>ph. clean email_rx None ph \<and> clean phone_rx None ph \<and> clean ssn_rx None ph \<and>
                   clean card_rx None ph \<and> clean name_rx None ph)
     [''[EMAIL_REDACTED]'', ''[PHONE_REDACTED]'', ''[SSN_REDACTED]'', ''[CARD_REDACTED]'',
      ''[NAME_REDACTED]'']"
proof
  show "redactPII (redactPII input) = redactPII input"
    by (cases input) (simp_all add: redactPII_def redact_string_idempotent)
  show "list_all (\<lambda>ph. clean email_rx None ph \<and> clean phone_rx None ph \<and> clean ssn_rx None ph \<and>
                   clean card_rx None ph \<and> clean name_rx None ph)
     [''[EMAIL_REDACTED]'', ''[PHONE_REDACTED]'', ''[SSN_REDACTED]'', ''[CARD_REDACTED]'',
      ''[NAME_REDACTED]'']"
    using placeholders
    by (simp add: placeholder_clean bounded_email bounded_phone bounded_ssn bounded_card
          bounded_name del: clean.simps)
qed

lemma redact_example:
  "redactPII (Some ''Hello John Smith, call +1 (555) 123-4567 or jane.doe@example.com'') =
   Some ''[NAME_REDACTED] Smith, call +[PHONE_REDACTED] or [EMAIL_REDACTED]''"
  by code_simp

theorem redactPII_idempotent_witness:
  "redactPII (Some ''Hello John Smith, call +1 (555) 123-4567 or jane.doe@example.com'') =
     Some ''[NAME_REDACTED] Smith, call +[PHONE_REDACTED] or [EMAIL_REDACTED]'' \<and>
   redactPII (Some ''[NAME_REDACTED] Smith, call +[PHONE_REDACTED] or [EMAIL_REDACTED]'') =
     Some ''[NAME_REDACTED] Smith, call +[PHONE_REDACTED] or [EMAIL_REDACTED]''"
  using redactPII_idempotent
    [of "Some ''Hello John Smith, call +1 (555) 123-4567 or jane.doe@example.com''"]
    redact_example
  by simp

end
